theory Spec2Isabelle
  imports Main "HOL-Library.AList" "HOL-Library.Sublist"
    "HOL-Library.List_Lexorder" "HOL-Library.Char_ord" "HOL-Library.Multiset"
begin

section \<open>Data model of the shim finalizer\<close>

text \<open>
  Paths are lists of path components below the filesystem root, so
  \<open>filepath.Join(dir, name)\<close> is list append and \<open>filepath.Base\<close> is the last component.
\<close>

type_synonym path = "string list"

text \<open>The struct \<open>LayerMetadata\<close> of finalizer.go.\<close>

record LayerMetadata =
  Build :: bool
  Launch :: bool
  Cache :: bool

text \<open>
  The types \<open>buildpack\<close>, \<open>stack\<close>, \<open>group\<close> and \<open>order\<close> are declared in another file of
  package shims. Their fields are taken from their uses in finalizer.go
  (\<open>buildpack{ID, Name, Version}\<close>, \<open>stack{ID}\<close>, \<open>groupMetadata.Buildpacks\<close>); for
  \<open>order\<close> see the doc comment below.
\<close>

record buildpack =
  bp_ID :: string
  bp_Name :: string
  bp_Version :: string

record stack =
  stack_ID :: string

record group =
  Buildpacks :: "buildpack list"

text \<open>
  Modelled from the spec: the declaration of \<open>order\<close> is missing. The specification's data
  model says: an Order is an ordered sequence of Groups, each Group an ordered sequence of
  buildpack references.
\<close>

record order =
  Groups :: "group list"

text \<open>Values held by fields of Go type \<open>interface{}\<close> after decoding a TOML document.\<close>

datatype toml_value =
    TString string
  | TInt int
  | TBool bool
  | TArray "toml_value list"
  | TTable "(string \<times> toml_value) list"

text \<open>The struct \<open>V3Dependency\<close> of finalizer.go.\<close>

record V3Dependency =
  ID :: string
  Name :: string
  Sha256 :: string
  Stacks :: "string list"
  URI :: string
  Version :: string
  Source :: string
  SourceSha256 :: string

text \<open>
  The struct \<open>BuildpackTOML\<close> of finalizer.go, its anonymous \<open>Metadata\<close> struct flattened into
  the record. A field of type \<open>interface{}\<close> is \<open>None\<close> when it is nil; the Go map
  \<open>DefaultVersions\<close> is \<open>None\<close> when it is nil.
\<close>

record BuildpackTOML =
  bt_Buildpack :: "toml_value option"
  IncludeFiles :: "toml_value option"
  PrePackage :: "toml_value option"
  DefaultVersions :: "(string \<rightharpoonup> toml_value) option"
  Dependencies :: "V3Dependency list"
  bt_Stacks :: "toml_value option"

text \<open>
  The types \<open>libbuildpack.Manifest\<close> and \<open>libbuildpack.ManifestEntry\<close> are declared in
  package libbuildpack; the fields below are the ones finalizer.go reads
  (\<open>manifest.DefaultVersions\<close>, \<open>manifest.ManifestEntries\<close>, \<open>entry.Dependency.Name\<close>,
  \<open>entry.Dependency.Version\<close>, \<open>entry.SHA256\<close>, \<open>entry.URI\<close>, \<open>entry.CFStacks\<close>).
\<close>

record Dependency =
  dep_Name :: string
  dep_Version :: string

record ManifestEntry =
  me_Dependency :: Dependency
  me_URI :: string
  me_SHA256 :: string
  CFStacks :: "string list"

record Manifest =
  mf_DefaultVersions :: "Dependency list"
  ManifestEntries :: "ManifestEntry list"

subsection \<open>Files and directories\<close>

text \<open>
  A file holds either uninterpreted bytes or one of the structured documents the finalizer
  encodes and decodes. The TOML and YAML text formats themselves are not modelled: a file
  written by an encoder holds the encoded value.
\<close>

datatype content =
    Bytes string
  | OrderTOML order
  | GroupTOML group
  | LayerTOML LayerMetadata
  | DescriptorTOML BuildpackTOML
  | FakeDescriptorTOML buildpack "stack list"
  | OverrideYML "(string \<times> Manifest) list"

datatype node = File content | Dir "(string \<times> node) list"

datatype errno = ENOENT | ENOTDIR | EISDIR | EEXIST | EINVAL

text \<open>
  Errors of the finalizer: errors of the \<open>os\<close> package carry an errno, \<open>errors.New\<close> values
  are constructors of their own, \<open>errors.Wrap(err, msg)\<close> keeps the cause.
\<close>

datatype error =
    PathError errno
  | NoOrderTomlFound
  | AtoiError string
  | DecodeError path
  | DetectorError string
  | HelperError string
  | Wrap error string

text \<open>
  The state a finalize run works on: the filesystem, the environment variable
  \<open>CF_STACK\<close>, and the number of times the external Detector has been run.
\<close>

record world =
  fs :: node
  cf_stack :: string
  detector_calls :: nat

text \<open>
  The struct \<open>Finalizer\<close>. The fields \<open>Installer\<close>, \<open>Manifest\<close> and \<open>Logger\<close> are used by
  \<open>Finalize\<close> only and are left out. The \<open>Detector\<close> is an external program: any function
  on the filesystem that may fail.
\<close>

record Finalizer =
  V2AppDir :: path
  V3AppDir :: path
  V2DepsDir :: path
  V2CacheDir :: path
  V3LayersDir :: path
  V3BuildpacksDir :: path
  DepsIndex :: string
  OrderDir :: path
  OrderMetadata :: path
  GroupMetadata :: path
  PlanMetadata :: path
  V3LifecycleDir :: path
  V3LauncherDir :: path
  ProfileDir :: path
  Detector :: "node \<Rightarrow> error + node"

section \<open>The filesystem\<close>

text \<open>
  A POSIX filesystem without symbolic links and permissions. \<open>walk\<close> resolves a path,
  \<open>put\<close> stores a node at a path whose parent directory exists, \<open>del\<close> unlinks a path.
\<close>

fun child :: "node \<Rightarrow> string \<Rightarrow> errno + node" where
  "child (File c) name = Inl ENOTDIR"
| "child (Dir es) name = (case map_of es name of None \<Rightarrow> Inl ENOENT | Some n \<Rightarrow> Inr n)"

fun walk :: "node \<Rightarrow> path \<Rightarrow> errno + node" where
  "walk n [] = Inr n"
| "walk n (c # cs) = (case child n c of Inl e \<Rightarrow> Inl e | Inr m \<Rightarrow> walk m cs)"

fun put :: "path \<Rightarrow> node \<Rightarrow> node \<Rightarrow> errno + node" where
  "put [] new n = Inr new"
| "put (c # cs) new n =
     (case n of
        File x \<Rightarrow> Inl ENOTDIR
      | Dir es \<Rightarrow>
          if cs = [] then Inr (Dir (AList.update c new es))
          else (case map_of es c of
                  None \<Rightarrow> Inl ENOENT
                | Some m \<Rightarrow>
                    (case put cs new m of
                       Inl e \<Rightarrow> Inl e
                     | Inr m' \<Rightarrow> Inr (Dir (AList.update c m' es)))))"

fun del :: "path \<Rightarrow> node \<Rightarrow> errno + node" where
  "del [] n = Inl EINVAL"
| "del (c # cs) n =
     (case n of
        File x \<Rightarrow> Inl ENOTDIR
      | Dir es \<Rightarrow>
          (case map_of es c of
             None \<Rightarrow> Inl ENOENT
           | Some m \<Rightarrow>
               if cs = [] then Inr (Dir (AList.delete c es))
               else (case del cs m of
                       Inl e \<Rightarrow> Inl e
                     | Inr m' \<Rightarrow> Inr (Dir (AList.update c m' es)))))"

text \<open>\<open>os.Stat\<close>: the node at the path, or the errno of the failed resolution.\<close>

definition os_Stat :: "path \<Rightarrow> world \<Rightarrow> error + node" where
  "os_Stat p w = (case walk (fs w) p of Inl e \<Rightarrow> Inl (PathError e) | Inr n \<Rightarrow> Inr n)"

text \<open>
  \<open>os.IsNotExist\<close> is true of an \<open>os\<close> error whose errno is ENOENT and of nothing else; it
  does not look through \<open>errors.Wrap\<close>.
\<close>

fun os_IsNotExist :: "error \<Rightarrow> bool" where
  "os_IsNotExist (PathError e) = (e = ENOENT)"
| "os_IsNotExist _ = False"

text \<open>Lifting a filesystem operation to the state.\<close>

definition on_fs :: "(node \<Rightarrow> errno + node) \<Rightarrow> world \<Rightarrow> error + world" where
  "on_fs op w = (case op (fs w) of Inl e \<Rightarrow> Inl (PathError e) | Inr r \<Rightarrow> Inr (w\<lparr>fs := r\<rparr>))"

text \<open>
  \<open>os.Rename\<close>: the old path must resolve and the parent of the new path must be a
  directory; a new path that exists and is not a directory is replaced, a new path that
  is a directory is refused, as the documentation of \<open>os.Rename\<close> says; a directory
  cannot be moved below itself.
\<close>

definition move :: "path \<Rightarrow> path \<Rightarrow> node \<Rightarrow> node \<Rightarrow> errno + node" where
  "move old new src r = (case del old r of Inl e \<Rightarrow> Inl e | Inr r' \<Rightarrow> put new src r')"

definition rename :: "path \<Rightarrow> path \<Rightarrow> node \<Rightarrow> errno + node" where
  "rename old new r =
     (if old = [] \<or> new = [] then Inl EINVAL
      else case walk r old of
        Inl e \<Rightarrow> Inl e
      | Inr src \<Rightarrow>
          (case walk r (butlast new) of
             Inl e \<Rightarrow> Inl e
           | Inr (File x) \<Rightarrow> Inl ENOTDIR
           | Inr (Dir ps) \<Rightarrow>
               (case walk r new of
                  Inr (Dir ds) \<Rightarrow> Inl EEXIST
                | Inr (File y) \<Rightarrow>
                    if old = new then Inr r
                    else if prefix old new then Inl EINVAL
                    else (case src of File x \<Rightarrow> move old new src r | Dir es \<Rightarrow> Inl ENOTDIR)
                | Inl e \<Rightarrow> if prefix old new then Inl EINVAL else move old new src r)))"

definition os_Rename :: "path \<Rightarrow> path \<Rightarrow> world \<Rightarrow> error + world" where
  "os_Rename old new = on_fs (rename old new)"

text \<open>\<open>filepath.Join\<close> of a directory and further components.\<close>

definition filepath_Join :: "path \<Rightarrow> string list \<Rightarrow> path" where
  "filepath_Join dir names = dir @ names"

text \<open>
  A path string that ends in a separator has an empty last component here; it names the
  same node as the path without it.
\<close>

definition clean :: "path \<Rightarrow> path" where
  "clean p = filter (\<lambda>c. c \<noteq> []) p"

text \<open>
  \<open>os.MkdirAll\<close>: creates the missing directories of the path; a file on the way is an
  error, an existing directory is not.
\<close>

fun mkdirAll :: "path \<Rightarrow> node \<Rightarrow> errno + node" where
  "mkdirAll [] n = (case n of File x \<Rightarrow> Inl ENOTDIR | Dir es \<Rightarrow> Inr n)"
| "mkdirAll (c # cs) n =
     (case n of
        File x \<Rightarrow> Inl ENOTDIR
      | Dir es \<Rightarrow>
          (case mkdirAll cs (case map_of es c of None \<Rightarrow> Dir [] | Some m \<Rightarrow> m) of
             Inl e \<Rightarrow> Inl e
           | Inr m' \<Rightarrow> Inr (Dir (AList.update c m' es))))"

definition os_MkdirAll :: "path \<Rightarrow> world \<Rightarrow> error + world" where
  "os_MkdirAll p = on_fs (mkdirAll p)"

text \<open>\<open>os.RemoveAll\<close>: removes the path and what is below it; a path that does not exist is no error.\<close>

definition removeAll :: "path \<Rightarrow> node \<Rightarrow> errno + node" where
  "removeAll p r =
     (case del p r of
        Inl e \<Rightarrow> if e = ENOENT then Inr r else Inl e
      | Inr r' \<Rightarrow> Inr r')"

definition os_RemoveAll :: "path \<Rightarrow> world \<Rightarrow> error + world" where
  "os_RemoveAll p = on_fs (removeAll p)"

text \<open>
  Creating or truncating a file and writing it (\<open>os.Create\<close>, \<open>ioutil.WriteFile\<close>): the
  parent must be a directory and the path must not be a directory.
\<close>

definition writeFile :: "path \<Rightarrow> content \<Rightarrow> node \<Rightarrow> errno + node" where
  "writeFile p c r =
     (case walk r p of
        Inr (Dir es) \<Rightarrow> Inl EISDIR
      | Inr (File x) \<Rightarrow> put p (File c) r
      | Inl e \<Rightarrow> if e = ENOENT then put p (File c) r else Inl e)"

definition os_Create :: "path \<Rightarrow> world \<Rightarrow> error + world" where
  "os_Create p = on_fs (writeFile p (Bytes []))"

definition ioutil_WriteFile :: "path \<Rightarrow> string \<Rightarrow> world \<Rightarrow> error + world" where
  "ioutil_WriteFile p bytes = on_fs (writeFile p (Bytes bytes))"

text \<open>\<open>ioutil.ReadFile\<close>: the content of a file.\<close>

definition ioutil_ReadFile :: "path \<Rightarrow> world \<Rightarrow> error + content" where
  "ioutil_ReadFile p w =
     (case walk (fs w) p of
        Inl e \<Rightarrow> Inl (PathError e)
      | Inr (Dir es) \<Rightarrow> Inl (PathError EISDIR)
      | Inr (File c) \<Rightarrow> Inr c)"

text \<open>
  One step of \<open>filepath.Glob\<close>: the entries of a directory whose name matches, in the sorted
  order of their names; nothing when the directory cannot be read. The directories of the
  finalizer are taken to contain no pattern characters.
\<close>

definition glob :: "(string \<Rightarrow> bool) \<Rightarrow> node \<Rightarrow> path \<Rightarrow> path list" where
  "glob matches r dir =
     (case walk r dir of
        Inr (Dir es) \<Rightarrow> map (\<lambda>n. dir @ [n]) (filter matches (sort (remdups (map fst es))))
      | _ \<Rightarrow> [])"

text \<open>The pattern \<open>*\<close> and a pattern \<open>*suffix\<close>.\<close>

definition star :: "string \<Rightarrow> bool" where
  "star n = True"

definition star_suffix :: "string \<Rightarrow> string \<Rightarrow> bool" where
  "star_suffix suf n = suffix suf n"

text \<open>The pattern of a literal name.\<close>

definition literal :: "string \<Rightarrow> string \<Rightarrow> bool" where
  "literal s n = (n = s)"

text \<open>
  \<open>filepath.Base\<close> (the last component, trailing separators dropped) and \<open>filepath.Dir\<close> of
  a path with at least one component.
\<close>

definition filepath_Base :: "path \<Rightarrow> string" where
  "filepath_Base p = last (clean p)"

definition filepath_Dir :: "path \<Rightarrow> path" where
  "filepath_Dir p = butlast p"

text \<open>String concatenation \<open>path + suffix\<close>: the suffix extends the last component.\<close>

definition path_plus :: "path \<Rightarrow> string \<Rightarrow> path" where
  "path_plus p suf = butlast p @ [last p @ suf]"

subsection \<open>Decimal numbers\<close>

text \<open>
  \<open>strconv.Itoa\<close> and \<open>strconv.Atoi\<close> on the 64-bit \<open>int\<close> of Go: an optional sign and decimal
  digits; a value outside the 64-bit range is an error.
\<close>

definition digit_char :: "nat \<Rightarrow> char" where
  "digit_char d = char_of (48 + d)"

definition digit_val :: "char \<Rightarrow> nat option" where
  "digit_val c =
     (let k = (of_char c :: nat) in if 48 \<le> k \<and> k \<le> 57 then Some (k - 48) else None)"

function digits :: "nat \<Rightarrow> string" where
  "digits n = (if n < 10 then [digit_char n] else digits (n div 10) @ [digit_char (n mod 10)])"
  by pat_completeness auto
termination
  by (relation "measure (\<lambda>n. n)") auto

declare digits.simps [simp del]

fun parse_digits :: "nat \<Rightarrow> string \<Rightarrow> nat option" where
  "parse_digits acc [] = Some acc"
| "parse_digits acc (c # cs) =
     (case digit_val c of None \<Rightarrow> None | Some d \<Rightarrow> parse_digits (10 * acc + d) cs)"

definition strconv_Itoa :: "int \<Rightarrow> string" where
  "strconv_Itoa i = (if i < 0 then CHR ''-'' # digits (nat (- i)) else digits (nat i))"

definition strconv_Atoi :: "string \<Rightarrow> error + int" where
  "strconv_Atoi s =
     (let neg = (s \<noteq> [] \<and> hd s = CHR ''-'');
          ds = (if s \<noteq> [] \<and> (hd s = CHR ''-'' \<or> hd s = CHR ''+'') then tl s else s)
      in if ds = [] then Inl (AtoiError s)
         else (case parse_digits 0 ds of
                 None \<Rightarrow> Inl (AtoiError s)
               | Some n \<Rightarrow>
                   (let v = (if neg then - int n else int n)
                    in if v < - (2 ^ 63) \<or> 2 ^ 63 - 1 < v then Inl (AtoiError s) else Inr v)))"

text \<open>Arithmetic on the 64-bit \<open>int\<close> wraps around.\<close>

definition wrap64 :: "int \<Rightarrow> int" where
  "wrap64 x = (x + 2 ^ 63) mod 2 ^ 64 - 2 ^ 63"

subsection \<open>Decoding documents\<close>

text \<open>
  The TOML decoder fills the fields of the target struct from the keys of the document,
  ignores keys the struct does not have and leaves fields without a key at their zero
  value. So a TOML document of another kind decodes to the zero value; bytes that are no
  TOML document are an error, and so is a YAML file.
\<close>

fun decode_group :: "content \<Rightarrow> group option" where
  "decode_group (GroupTOML g) = Some g"
| "decode_group (Bytes b) = None"
| "decode_group (OverrideYML m) = None"
| "decode_group _ = Some \<lparr>Buildpacks = []\<rparr>"

fun decode_order :: "content \<Rightarrow> order option" where
  "decode_order (OrderTOML ord) = Some ord"
| "decode_order (Bytes b) = None"
| "decode_order (OverrideYML m) = None"
| "decode_order _ = Some \<lparr>Groups = []\<rparr>"

fun decode_LayerMetadata :: "content \<Rightarrow> LayerMetadata option" where
  "decode_LayerMetadata (LayerTOML m) = Some m"
| "decode_LayerMetadata (Bytes b) = None"
| "decode_LayerMetadata (OverrideYML m) = None"
| "decode_LayerMetadata _ = Some \<lparr>Build = False, Launch = False, Cache = False\<rparr>"

definition buildpack_value :: "buildpack \<Rightarrow> toml_value" where
  "buildpack_value b =
     TTable [(''id'', TString (bp_ID b)), (''name'', TString (bp_Name b)),
             (''version'', TString (bp_Version b))]"

definition stack_value :: "stack \<Rightarrow> toml_value" where
  "stack_value st = TTable [(''id'', TString (stack_ID st))]"

definition empty_BuildpackTOML :: BuildpackTOML where
  "empty_BuildpackTOML =
     \<lparr>bt_Buildpack = None, IncludeFiles = None, PrePackage = None, DefaultVersions = None,
      Dependencies = [], bt_Stacks = None\<rparr>"

fun decode_BuildpackTOML :: "content \<Rightarrow> BuildpackTOML option" where
  "decode_BuildpackTOML (DescriptorTOML d) = Some d"
| "decode_BuildpackTOML (FakeDescriptorTOML b sts) =
     Some (empty_BuildpackTOML\<lparr>bt_Buildpack := Some (buildpack_value b),
                               bt_Stacks := Some (TArray (map stack_value sts))\<rparr>)"
| "decode_BuildpackTOML (Bytes b) = None"
| "decode_BuildpackTOML (OverrideYML m) = None"
| "decode_BuildpackTOML _ = Some empty_BuildpackTOML"

text \<open>
  The YAML loader of package libbuildpack: loading succeeds on an override document and
  fails on anything else.
\<close>

fun decode_override :: "content \<Rightarrow> (string \<times> Manifest) list option" where
  "decode_override (OverrideYML m) = Some m"
| "decode_override _ = None"

section \<open>Helpers declared in other files of the repository\<close>

text \<open>
  Modelled from the spec: \<open>encodeTOML\<close> is missing. The specification's Metadata Codec encodes
  the descriptor formats, and the produced document is written to a fixed location: the
  destination file is created or truncated and holds the encoded value.
\<close>

definition encodeTOML :: "path \<Rightarrow> content \<Rightarrow> world \<Rightarrow> error + world" where
  "encodeTOML dest data = on_fs (writeFile dest data)"

text \<open>
  Modelled from the spec: \<open>parseOrderTOMLs\<close> is missing. The specification's Order Merger
  discovers every order fragment left behind by the legacy buildpacks that ran a supply
  step, one fragment per legacy buildpack index, and orders the fragments by the legacy
  buildpacks' original execution order, lowest index first; a fragment that does not parse
  is fatal. The supply step stores the fragment of index \<open>i\<close> as \<open>order<i>.toml\<close> in the
  order directory (\<open>Supplier.SaveOrderTOML\<close>), so the fragments are the entries of that name.
\<close>

definition fragment_index :: "string \<Rightarrow> nat option" where
  "fragment_index name =
     (if prefix ''order'' name \<and> suffix ''.toml'' name \<and> 10 < length name
      then parse_digits 0 (take (length name - 10) (drop 5 name))
      else None)"

definition discover_fragments :: "(string \<times> node) list \<Rightarrow> (nat \<times> string) list" where
  "discover_fragments es =
     sort_key fst
       (concat (map (\<lambda>name. case fragment_index name of None \<Rightarrow> [] | Some i \<Rightarrow> [(i, name)])
                    (sort (remdups (map fst es)))))"

fun parse_fragments :: "path \<Rightarrow> world \<Rightarrow> string list \<Rightarrow> error + order list" where
  "parse_fragments dir w [] = Inr []"
| "parse_fragments dir w (name # names) =
     (case ioutil_ReadFile (dir @ [name]) w of
        Inl err \<Rightarrow> Inl err
      | Inr c \<Rightarrow>
          (case decode_order c of
             None \<Rightarrow> Inl (DecodeError (dir @ [name]))
           | Some ord \<Rightarrow>
               (case parse_fragments dir w names of
                  Inl err \<Rightarrow> Inl err
                | Inr ords \<Rightarrow> Inr (ord # ords))))"

definition parseOrderTOMLs :: "path \<Rightarrow> world \<Rightarrow> error + order list" where
  "parseOrderTOMLs orderFilesDir w =
     (case walk (fs w) orderFilesDir of
        Inl e \<Rightarrow> Inl (PathError e)
      | Inr (File x) \<Rightarrow> Inl (PathError ENOTDIR)
      | Inr (Dir es) \<Rightarrow> parse_fragments orderFilesDir w (map snd (discover_fragments es)))"

text \<open>
  Modelled from the spec: \<open>combineOrders\<close> is missing. The specification's Order Merger
  produces one combined Order that contains every fragment's groups, in fragment-discovery
  order, preserving each fragment's internal group ordering.
\<close>

definition combineOrders :: "order list \<Rightarrow> order" where
  "combineOrders orders = \<lparr>Groups = concat (map Groups orders)\<rparr>"

text \<open>
  Modelled from the spec: \<open>libbuildpack.FileExists\<close> is missing. The specification's restore
  contract distinguishes a cache root that exists from one that is absent, and absence is
  no error.
\<close>

definition FileExists :: "path \<Rightarrow> world \<Rightarrow> error + bool" where
  "FileExists file w =
     (case os_Stat file w of
        Inl err \<Rightarrow> if os_IsNotExist err then Inr False else Inl err
      | Inr n \<Rightarrow> Inr True)"

text \<open>
  Modelled from the spec: \<open>libbuildpack.MoveDirectory\<close> is missing. The specification's restore
  contract moves the durable cache root wholesale into the working layers directory
  (moved, not copied): when the destination does not exist the directory is renamed to
  it, otherwise every entry of the source directory is renamed into the destination.
\<close>

fun move_entries :: "path \<Rightarrow> path \<Rightarrow> string list \<Rightarrow> world \<Rightarrow> error + world" where
  "move_entries srcDir destDir [] w = Inr w"
| "move_entries srcDir destDir (name # names) w =
     (case os_Rename (srcDir @ [name]) (destDir @ [name]) w of
        Inl err \<Rightarrow> Inl err
      | Inr w' \<Rightarrow> move_entries srcDir destDir names w')"

definition MoveDirectory :: "path \<Rightarrow> path \<Rightarrow> world \<Rightarrow> error + world" where
  "MoveDirectory srcDir destDir w =
     (case walk (fs w) srcDir of
        Inl e \<Rightarrow> Inl (PathError e)
      | Inr (File x) \<Rightarrow> Inl (PathError ENOTDIR)
      | Inr (Dir es) \<Rightarrow>
          (case walk (fs w) destDir of
             Inl e \<Rightarrow> os_Rename srcDir destDir w
           | Inr n \<Rightarrow> move_entries srcDir destDir (sort (remdups (map fst es))) w))"

text \<open>
  Modelled from the spec: \<open>libbuildpack.CopyFile\<close> is missing. The specification's persist
  contract copies the sidecar: the destination file holds what the source file holds.
\<close>

definition CopyFile :: "path \<Rightarrow> path \<Rightarrow> world \<Rightarrow> error + world" where
  "CopyFile source dest w =
     (case ioutil_ReadFile source w of
        Inl err \<Rightarrow> Inl err
      | Inr c \<Rightarrow> on_fs (writeFile dest c) w)"

text \<open>
  Modelled from the spec: \<open>libbuildpack.CopyDirectory\<close> is missing. The specification's persist
  contract copies the full directory tree, overwriting any prior entry: the destination,
  an existing directory, holds the tree of the source directory afterwards.
\<close>

definition copyDirectory :: "path \<Rightarrow> path \<Rightarrow> node \<Rightarrow> errno + node" where
  "copyDirectory srcDir destDir r =
     (case walk r srcDir of
        Inl e \<Rightarrow> Inl e
      | Inr (File x) \<Rightarrow> Inl ENOTDIR
      | Inr (Dir es) \<Rightarrow>
          (case walk r destDir of
             Inl e \<Rightarrow> Inl e
           | Inr (File y) \<Rightarrow> Inl ENOTDIR
           | Inr (Dir ds) \<Rightarrow> put destDir (Dir es) r))"

definition CopyDirectory :: "path \<Rightarrow> path \<Rightarrow> world \<Rightarrow> error + world" where
  "CopyDirectory srcDir destDir = on_fs (copyDirectory (clean srcDir) (clean destDir))"

section \<open>The finalizer\<close>

text \<open>\<open>os.IsNotExist\<close> of the error of a call; it is false when the error is nil.\<close>

definition err_IsNotExist :: "error + 'a \<Rightarrow> bool" where
  "err_IsNotExist res = (case res of Inl err \<Rightarrow> os_IsNotExist err | Inr x \<Rightarrow> False)"

definition MergeOrderTOMLs :: "Finalizer \<Rightarrow> world \<Rightarrow> error + world" where
  "MergeOrderTOMLs f w =
     (case parseOrderTOMLs (OrderDir f) w of
        Inl err \<Rightarrow> Inl err
      | Inr orders \<Rightarrow>
          if length orders = 0 then Inl NoOrderTomlFound
          else encodeTOML (OrderMetadata f) (OrderTOML (combineOrders orders)) w)"

text \<open>
  Running the external Detector: its error is returned; on success the filesystem is the
  one it leaves behind, and the run is counted.
\<close>

definition RunLifecycleDetect :: "Finalizer \<Rightarrow> world \<Rightarrow> error + world" where
  "RunLifecycleDetect f w =
     (case Detector f (fs w) of
        Inl err \<Rightarrow> Inl err
      | Inr r \<Rightarrow> Inr (w\<lparr>fs := r, detector_calls := Suc (detector_calls w)\<rparr>))"

definition RunV3Detect :: "Finalizer \<Rightarrow> world \<Rightarrow> error + world" where
  "RunV3Detect f w =
     (let groupErr = os_Stat (GroupMetadata f) w;
          planErr = os_Stat (PlanMetadata f) w
      in if err_IsNotExist groupErr \<or> err_IsNotExist planErr
         then RunLifecycleDetect f w
         else Inr w)"

definition MoveV2Layers :: "Finalizer \<Rightarrow> path \<Rightarrow> path \<Rightarrow> world \<Rightarrow> error + world" where
  "MoveV2Layers f src dst w =
     (case os_MkdirAll (filepath_Dir dst) w of
        Inl err \<Rightarrow> Inl err
      | Inr w' \<Rightarrow> os_Rename src dst w')"

definition WriteLayerMetadata :: "Finalizer \<Rightarrow> path \<Rightarrow> world \<Rightarrow> error + world" where
  "WriteLayerMetadata f p w =
     (let contents = \<lparr>Build = True, Launch = True, Cache = False\<rparr>
      in encodeTOML (path_plus p ''.toml'') (LayerTOML contents) w)"

definition ReadLayerMetadata :: "Finalizer \<Rightarrow> path \<Rightarrow> world \<Rightarrow> error + LayerMetadata" where
  "ReadLayerMetadata f p w =
     (case ioutil_ReadFile p w of
        Inl err \<Rightarrow> Inl err
      | Inr c \<Rightarrow>
          (case decode_LayerMetadata c of
             None \<Rightarrow> Inl (DecodeError p)
           | Some contents \<Rightarrow> Inr contents))"

text \<open>
  \<open>RenameEnvDir\<close>: the error of \<open>os.Rename\<close> is returned unless it is a not-exist error.
\<close>

definition RenameEnvDir :: "Finalizer \<Rightarrow> path \<Rightarrow> world \<Rightarrow> error + world" where
  "RenameEnvDir f dst w =
     (case os_Rename (filepath_Join dst [''env'']) (filepath_Join dst [''env.build'']) w of
        Inl err \<Rightarrow> if \<not> os_IsNotExist err then Inl err else Inr w
      | Inr w' \<Rightarrow> Inr w')"

definition UpdateGroupTOML :: "Finalizer \<Rightarrow> string \<Rightarrow> world \<Rightarrow> error + world" where
  "UpdateGroupTOML f buildpackID w =
     (case ioutil_ReadFile (GroupMetadata f) w of
        Inl err \<Rightarrow> Inl err
      | Inr c \<Rightarrow>
          (case decode_group c of
             None \<Rightarrow> Inl (DecodeError (GroupMetadata f))
           | Some groupMetadata \<Rightarrow>
               encodeTOML (GroupMetadata f)
                 (GroupTOML (groupMetadata\<lparr>Buildpacks :=
                    [\<lparr>bp_ID = buildpackID, bp_Name = [], bp_Version = []\<rparr>]
                      @ Buildpacks groupMetadata\<rparr>)) w))"

definition AddFakeCNBBuildpack :: "Finalizer \<Rightarrow> string \<Rightarrow> world \<Rightarrow> error + world" where
  "AddFakeCNBBuildpack f buildpackID w =
     (let buildpackPath = filepath_Join (V3BuildpacksDir f) [buildpackID, ''latest'']
      in case os_MkdirAll buildpackPath w of
           Inl err \<Rightarrow> Inl err
         | Inr w1 \<Rightarrow>
             (case os_Create (filepath_Join buildpackPath [''buildpack.toml'']) w1 of
                Inl err \<Rightarrow> Inl err
              | Inr w2 \<Rightarrow>
                  (case encodeTOML (filepath_Join buildpackPath [''buildpack.toml''])
                          (FakeDescriptorTOML
                             \<lparr>bp_ID = buildpackID, bp_Name = buildpackID,
                              bp_Version = ''latest''\<rparr>
                             [\<lparr>stack_ID = ''org.cloudfoundry.stacks.'' @ cf_stack w2\<rparr>]) w2 of
                     Inl err \<Rightarrow> Inl err
                   | Inr w3 \<Rightarrow>
                       (case os_MkdirAll (filepath_Join buildpackPath [''bin'']) w3 of
                          Inl err \<Rightarrow> Inl err
                        | Inr w4 \<Rightarrow>
                            ioutil_WriteFile (filepath_Join buildpackPath [''bin'', ''build''])
                              ''#!/bin/bash'' w4))))"

text \<open>
  The loop of \<open>IncludePreviousV2Buildpacks\<close>:
  \<open>for supplyDepsIndex := myIDx - 1; supplyDepsIndex >= 0; supplyDepsIndex--\<close>.
\<close>

function include_loop :: "Finalizer \<Rightarrow> int \<Rightarrow> world \<Rightarrow> error + world" where
  "include_loop f supplyDepsIndex w =
     (if supplyDepsIndex \<ge> 0 then
        (let v2Layer = filepath_Join (V2DepsDir f) [strconv_Itoa supplyDepsIndex]
         in if err_IsNotExist (os_Stat v2Layer w) then include_loop f (supplyDepsIndex - 1) w
            else
              (let buildpackID = ''buildpack.'' @ strconv_Itoa supplyDepsIndex;
                   v3Layer = filepath_Join (V3LayersDir f) [buildpackID, ''layer'']
               in case MoveV2Layers f v2Layer v3Layer w of
                    Inl err \<Rightarrow> Inl err
                  | Inr w1 \<Rightarrow>
                      (case WriteLayerMetadata f v3Layer w1 of
                         Inl err \<Rightarrow> Inl err
                       | Inr w2 \<Rightarrow>
                           (case RenameEnvDir f v3Layer w2 of
                              Inl err \<Rightarrow> Inl err
                            | Inr w3 \<Rightarrow>
                                (case UpdateGroupTOML f buildpackID w3 of
                                   Inl err \<Rightarrow> Inl err
                                 | Inr w4 \<Rightarrow>
                                     (case AddFakeCNBBuildpack f buildpackID w4 of
                                        Inl err \<Rightarrow> Inl err
                                      | Inr w5 \<Rightarrow>
                                          include_loop f (supplyDepsIndex - 1) w5))))))
      else Inr w)"
  by pat_completeness auto
termination
  by (relation "measure (\<lambda>(f, i, w). nat (i + 1))") auto

declare include_loop.simps [simp del]

definition IncludePreviousV2Buildpacks :: "Finalizer \<Rightarrow> world \<Rightarrow> error + world" where
  "IncludePreviousV2Buildpacks f w =
     (case strconv_Atoi (DepsIndex f) of
        Inl err \<Rightarrow> Inl err
      | Inr myIDx \<Rightarrow>
          (case os_RemoveAll (filepath_Join (V2DepsDir f) [DepsIndex f]) w of
             Inl err \<Rightarrow> Inl err
           | Inr w' \<Rightarrow> include_loop f (wrap64 (myIDx - 1)) w'))"

definition RestoreV3Cache :: "Finalizer \<Rightarrow> world \<Rightarrow> error + world" where
  "RestoreV3Cache f w =
     (let cnbCache = filepath_Join (V2CacheDir f) [''cnb'']
      in case FileExists cnbCache w of
           Inl err \<Rightarrow> Inl err
         | Inr exists \<Rightarrow>
             if exists then MoveDirectory cnbCache (V3LayersDir f) w
             else Inr w)"

text \<open>
  \<open>cacheLayer\<close> and the loop of \<open>moveV3Layer\<close> over the sidecars of a buildpack's layers
  directory; \<open>tomlFile[:len(tomlFile)-tomlSize]\<close> drops the five characters of \<open>.toml\<close>.
\<close>

definition cacheLayer :: "Finalizer \<Rightarrow> path \<Rightarrow> string \<Rightarrow> string \<Rightarrow> world \<Rightarrow> error + world" where
  "cacheLayer f v3Path layersName layerName w =
     (let cacheDir = filepath_Join (V2CacheDir f) [''cnb'', layersName, layerName]
      in case os_MkdirAll cacheDir w of
           Inl err \<Rightarrow> Inl err
         | Inr w1 \<Rightarrow>
             (case CopyFile (path_plus v3Path ''.toml'') (path_plus cacheDir ''.toml'') w1 of
                Inl err \<Rightarrow> Inl err
              | Inr w2 \<Rightarrow> CopyDirectory v3Path cacheDir w2))"

definition drop_toml :: "path \<Rightarrow> path" where
  "drop_toml tomlFile = butlast tomlFile @ [take (length (last tomlFile) - 5) (last tomlFile)]"

fun cache_loop :: "Finalizer \<Rightarrow> string \<Rightarrow> path list \<Rightarrow> world \<Rightarrow> error + world" where
  "cache_loop f layersName [] w = Inr w"
| "cache_loop f layersName (tomlFile # tomls) w =
     (case ReadLayerMetadata f tomlFile w of
        Inl err \<Rightarrow> Inl err
      | Inr decodedToml \<Rightarrow>
          if Cache decodedToml then
            (let layerPath = drop_toml tomlFile;
                 layerName = filepath_Base layerPath
             in case cacheLayer f layerPath layersName layerName w of
                  Inl err \<Rightarrow> Inl err
                | Inr w' \<Rightarrow> cache_loop f layersName tomls w')
          else cache_loop f layersName tomls w)"

definition moveV3Layer :: "Finalizer \<Rightarrow> path \<Rightarrow> world \<Rightarrow> error + world" where
  "moveV3Layer f layersPath w =
     (let layersName = filepath_Base layersPath;
          tomls = glob (star_suffix ''.toml'') (fs w) layersPath
      in case cache_loop f layersName tomls w of
           Inl err \<Rightarrow> Inl err
         | Inr w1 \<Rightarrow>
             (case os_MkdirAll (filepath_Join (V2DepsDir f) [layersName]) w1 of
                Inl err \<Rightarrow> Inl err
              | Inr w2 \<Rightarrow>
                  (case CopyDirectory layersPath (filepath_Join (V2DepsDir f) [layersName]) w2 of
                     Inl err \<Rightarrow> Inl err
                   | Inr w3 \<Rightarrow> Inr w3)))"

definition moveV3Config :: "Finalizer \<Rightarrow> world \<Rightarrow> error + world" where
  "moveV3Config f w =
     (case os_Rename (filepath_Join (V3LayersDir f) [''config''])
             (filepath_Join (V2DepsDir f) [''config'']) w of
        Inl err \<Rightarrow> Inl err
      | Inr w1 \<Rightarrow>
          (case os_MkdirAll (filepath_Join (V2AppDir f) [''.cloudfoundry'']) w1 of
             Inl err \<Rightarrow> Inl err
           | Inr w2 \<Rightarrow>
               (case CopyFile (filepath_Join (V2DepsDir f) [''config'', ''metadata.toml''])
                       (filepath_Join (V2AppDir f) [''.cloudfoundry'', ''metadata.toml'']) w2 of
                  Inl err \<Rightarrow> Inl err
                | Inr w3 \<Rightarrow> Inr w3)))"

fun layers_loop :: "Finalizer \<Rightarrow> path list \<Rightarrow> world \<Rightarrow> error + world" where
  "layers_loop f [] w = Inr w"
| "layers_loop f (bpLayerPath # bpLayers) w =
     (let base = filepath_Base bpLayerPath
      in if base = ''config'' then
           (case moveV3Config f w of
              Inl err \<Rightarrow> Inl err
            | Inr w' \<Rightarrow> layers_loop f bpLayers w')
         else
           (case moveV3Layer f bpLayerPath w of
              Inl err \<Rightarrow> Inl err
            | Inr w' \<Rightarrow> layers_loop f bpLayers w'))"

definition MoveV3Layers :: "Finalizer \<Rightarrow> world \<Rightarrow> error + world" where
  "MoveV3Layers f w = layers_loop f (glob star (fs w) (V3LayersDir f)) w"

subsection \<open>Overrides\<close>

definition v2ToV3Dep :: "ManifestEntry \<Rightarrow> V3Dependency" where
  "v2ToV3Dep entry =
     \<lparr>ID = dep_Name (me_Dependency entry),
      Name = dep_Name (me_Dependency entry),
      Sha256 = me_SHA256 entry,
      Stacks = map (\<lambda>stack. ''org.cloudfoundry.stacks.'' @ stack) (CFStacks entry),
      URI = me_URI entry,
      Version = dep_Version (me_Dependency entry),
      Source = [],
      SourceSha256 = []\<rparr>"

text \<open>
  The inner loops of \<open>updateBuildpackTOML\<close> for one override dependency: every record of the
  same id and version is overwritten at its index, and the dependency is appended when
  none was.
\<close>

definition replace_at :: "V3Dependency \<Rightarrow> nat \<Rightarrow> V3Dependency list \<times> bool \<Rightarrow> V3Dependency list \<times> bool" where
  "replace_at overrideDep idx st =
     (let cnbDeps = fst st; replaced = snd st; v3Dep = cnbDeps ! idx
      in if ID v3Dep = ID overrideDep \<and> Version v3Dep = Version overrideDep
         then (cnbDeps[idx := overrideDep], True)
         else (cnbDeps, replaced))"

definition upsert_dep :: "V3Dependency list \<Rightarrow> V3Dependency \<Rightarrow> V3Dependency list" where
  "upsert_dep cnbDeps overrideDep =
     (let st = fold (replace_at overrideDep) [0..<length cnbDeps] (cnbDeps, False)
      in if \<not> snd st then fst st @ [overrideDep] else fst st)"

definition set_default :: "Dependency \<Rightarrow> BuildpackTOML \<Rightarrow> BuildpackTOML" where
  "set_default defaultVer bpTOML =
     bpTOML\<lparr>DefaultVersions :=
       Some ((case DefaultVersions bpTOML of None \<Rightarrow> Map.empty | Some m \<Rightarrow> m)
               (dep_Name defaultVer \<mapsto> TString (dep_Version defaultVer)))\<rparr>"

definition apply_manifest :: "Manifest \<Rightarrow> BuildpackTOML \<Rightarrow> BuildpackTOML" where
  "apply_manifest manifest bpTOML =
     (let b1 = fold set_default (mf_DefaultVersions manifest) bpTOML
      in fold (\<lambda>dep b. b\<lparr>Dependencies := upsert_dep (Dependencies b) (v2ToV3Dep dep)\<rparr>)
              (ManifestEntries manifest) b1)"

text \<open>
  \<open>for _, manifest := range overrideMap\<close> ranges over a Go map, whose iteration order the
  language leaves to the runtime. The order is a parameter: a \<open>range_order\<close> maps the
  entries of the map to the sequence in which one execution visits them.
\<close>

type_synonym range_order = "(string \<times> Manifest) list \<Rightarrow> (string \<times> Manifest) list"

definition valid_order :: "range_order \<Rightarrow> bool" where
  "valid_order ro = (\<forall>m. mset (ro m) = mset m)"

fun updateBuildpackTOML ::
  "range_order \<Rightarrow> Finalizer \<Rightarrow> path list \<Rightarrow> (string \<times> Manifest) list \<Rightarrow> world \<Rightarrow> error + world" where
  "updateBuildpackTOML ro f [] overrideMap w = Inr w"
| "updateBuildpackTOML ro f (bpTOMLPath # bpTOMLPaths) overrideMap w =
     (case ioutil_ReadFile bpTOMLPath w of
        Inl err \<Rightarrow> Inl err
      | Inr contents \<Rightarrow>
          (case decode_BuildpackTOML contents of
             None \<Rightarrow> Inl (Wrap (DecodeError bpTOMLPath) ''failed to unmarshal into bpTOML'')
           | Some bpTOML \<Rightarrow>
               (case encodeTOML bpTOMLPath
                       (DescriptorTOML (fold (\<lambda>entry. apply_manifest (snd entry)) (ro overrideMap) bpTOML))
                       w of
                  Inl err \<Rightarrow> Inl err
                | Inr w' \<Rightarrow> updateBuildpackTOML ro f bpTOMLPaths overrideMap w')))"

fun override_loop ::
  "range_order \<Rightarrow> Finalizer \<Rightarrow> path list \<Rightarrow> path list \<Rightarrow> world \<Rightarrow> error + world" where
  "override_loop ro f bpTOMLs [] w = Inr w"
| "override_loop ro f bpTOMLs (overrideYML # overrideYMLPaths) w =
     (case ioutil_ReadFile overrideYML w of
        Inl err \<Rightarrow> Inl (Wrap err ''unable to unmarshal into overrideManifest'')
      | Inr c \<Rightarrow>
          (case decode_override c of
             None \<Rightarrow>
               Inl (Wrap (DecodeError overrideYML) ''unable to unmarshal into overrideManifest'')
           | Some overrideManifest \<Rightarrow>
               (case updateBuildpackTOML ro f bpTOMLs overrideManifest w of
                  Inl err \<Rightarrow> Inl err
                | Inr w' \<Rightarrow> override_loop ro f bpTOMLs overrideYMLPaths w')))"

definition ApplyOverrideYMLs :: "range_order \<Rightarrow> Finalizer \<Rightarrow> world \<Rightarrow> error + world" where
  "ApplyOverrideYMLs ro f w =
     (let overrideYMLPaths =
            concat (map (glob (literal ''override.yml'') (fs w)) (glob star (fs w) (V2DepsDir f)));
          bpTOMLs =
            concat (map (glob (literal ''buildpack.toml'') (fs w))
                        (concat (map (glob star (fs w)) (glob star (fs w) (V3BuildpacksDir f)))))
      in override_loop ro f bpTOMLs overrideYMLPaths w)"

section \<open>Example inputs\<close>

definition example_finalizer :: Finalizer where
  "example_finalizer =
     \<lparr>V2AppDir = [''tmp'', ''app''], V3AppDir = [''home'', ''vcap'', ''app''],
      V2DepsDir = [''tmp'', ''deps''], V2CacheDir = [''tmp'', ''cache''],
      V3LayersDir = [''home'', ''vcap'', ''deps''], V3BuildpacksDir = [''home'', ''vcap'', ''cnbs''],
      DepsIndex = ''2'', OrderDir = [''home'', ''vcap'', ''order''],
      OrderMetadata = [''home'', ''vcap'', ''metadata'', ''order.toml''],
      GroupMetadata = [''home'', ''vcap'', ''metadata'', ''group.toml''],
      PlanMetadata = [''home'', ''vcap'', ''metadata'', ''plan.toml''],
      V3LifecycleDir = [''tmp'', ''lifecycle''], V3LauncherDir = [''tmp'', ''deps'', ''launcher''],
      ProfileDir = [''tmp'', ''profile.d''], Detector = (\<lambda>r. Inr r)\<rparr>"

definition env_world :: "(string \<times> node) list \<Rightarrow> world" where
  "env_world es = \<lparr>fs = Dir [(''layer'', Dir es)], cf_stack = ''cflinuxfs3'', detector_calls = 0\<rparr>"

definition lang_group :: "string \<Rightarrow> group" where
  "lang_group name = \<lparr>Buildpacks = [\<lparr>bp_ID = name, bp_Name = [], bp_Version = []\<rparr>]\<rparr>"

definition vcap_world :: "(string \<times> node) list \<Rightarrow> world" where
  "vcap_world es =
     \<lparr>fs = Dir [(''home'', Dir [(''vcap'', Dir es)])], cf_stack = ''cflinuxfs3'', detector_calls = 0\<rparr>"

definition order_entries :: "(string \<times> node) list" where
  "order_entries =
     [(''order1.toml'', File (OrderTOML \<lparr>Groups = [lang_group ''lang-b'']\<rparr>)),
      (''order0.toml'', File (OrderTOML \<lparr>Groups = [lang_group ''lang-a'']\<rparr>))]"

definition metadata_entries :: "(string \<times> node) list" where
  "metadata_entries =
     [(''group.toml'', File (GroupTOML (lang_group ''lang-b''))), (''plan.toml'', File (Bytes []))]"

definition entry_A :: "string \<Rightarrow> string \<Rightarrow> ManifestEntry" where
  "entry_A version sha =
     \<lparr>me_Dependency = \<lparr>dep_Name = ''A'', dep_Version = version\<rparr>,
      me_URI = ''https://example.org/a.tgz'', me_SHA256 = sha, CFStacks = [''cflinuxfs3'']\<rparr>"

definition manifest_A :: Manifest where
  "manifest_A = \<lparr>mf_DefaultVersions = [\<lparr>dep_Name = ''A'', dep_Version = ''1''\<rparr>],
                 ManifestEntries = [entry_A ''1'' ''aaa'']\<rparr>"

definition override_world :: "(string \<times> Manifest) list \<Rightarrow> world" where
  "override_world m =
     \<lparr>fs = Dir [(''tmp'', Dir [(''deps'', Dir [(''0'', Dir [(''override.yml'', File (OverrideYML m))])])]),
                (''home'', Dir [(''vcap'', Dir [(''cnbs'', Dir [(''org.lang'', Dir [(''1.0'',
                   Dir [(''buildpack.toml'', File (DescriptorTOML empty_BuildpackTOML))])])])])])],
      cf_stack = ''cflinuxfs3'', detector_calls = 0\<rparr>"

definition manifest_of :: "ManifestEntry \<Rightarrow> Manifest" where
  "manifest_of e = \<lparr>mf_DefaultVersions = [], ManifestEntries = [e]\<rparr>"

definition two_manifests :: "(string \<times> Manifest) list" where
  "two_manifests = [(''x'', manifest_of (entry_A ''1'' ''aaa'')), (''y'', manifest_of (entry_A ''1'' ''bbb''))]"

definition descriptor_path :: path where
  "descriptor_path = [''home'', ''vcap'', ''cnbs'', ''org.lang'', ''1.0'', ''buildpack.toml'']"

definition descriptor_deps :: "error + world \<Rightarrow> V3Dependency list" where
  "descriptor_deps res =
     (case res of
        Inl e \<Rightarrow> []
      | Inr w \<Rightarrow>
          (case walk (fs w) descriptor_path of
             Inr (File (DescriptorTOML d)) \<Rightarrow> Dependencies d
           | _ \<Rightarrow> []))"

definition tmp_home_world :: "(string \<times> node) list \<Rightarrow> (string \<times> node) list \<Rightarrow> world" where
  "tmp_home_world t h =
     \<lparr>fs = Dir [(''tmp'', Dir t), (''home'', Dir [(''vcap'', Dir h)])],
      cf_stack = ''cflinuxfs3'', detector_calls = 0\<rparr>"

definition cached_layers :: "(string \<times> node) list" where
  "cached_layers = [(''org.lang'', Dir [(''jdk'', Dir [(''bin'', Dir [])]),
                                        (''jdk.toml'', File (LayerTOML \<lparr>Build = False, Launch = True, Cache = True\<rparr>))])]"

definition legacy_deps :: "(string \<times> node) list" where
  "legacy_deps =
     [(''0'', Dir [(''env'', Dir [(''A'', File (Bytes ''a''))])]),
      (''1'', Dir [(''bin'', Dir [])]),
      (''2'', Dir [(''own'', File (Bytes ''o''))])]"

definition include_world :: world where
  "include_world =
     tmp_home_world [(''deps'', Dir legacy_deps)] [(''metadata'', Dir metadata_entries)]"

definition fake_cnb :: "string \<Rightarrow> string \<times> node" where
  "fake_cnb bid =
     (bid, Dir [(''latest'',
        Dir [(''buildpack.toml'',
              File (FakeDescriptorTOML \<lparr>bp_ID = bid, bp_Name = bid, bp_Version = ''latest''\<rparr>
                      [\<lparr>stack_ID = ''org.cloudfoundry.stacks.cflinuxfs3''\<rparr>])),
             (''bin'', Dir [(''build'', File (Bytes ''#!/bin/bash''))])])])"

definition injected_layer :: "string \<Rightarrow> (string \<times> node) list \<Rightarrow> string \<times> node" where
  "injected_layer bid es =
     (bid, Dir [(''layer'', Dir es),
                (''layer.toml'', File (LayerTOML \<lparr>Build = True, Launch = True, Cache = False\<rparr>))])"

definition included_world :: world where
  "included_world =
     tmp_home_world [(''deps'', Dir [])]
       [(''metadata'',
         Dir [(''group.toml'',
               File (GroupTOML \<lparr>Buildpacks =
                 [\<lparr>bp_ID = ''buildpack.0'', bp_Name = [], bp_Version = []\<rparr>,
                  \<lparr>bp_ID = ''buildpack.1'', bp_Name = [], bp_Version = []\<rparr>,
                  \<lparr>bp_ID = ''lang-b'', bp_Name = [], bp_Version = []\<rparr>]\<rparr>)),
              (''plan.toml'', File (Bytes []))]),
        (''deps'',
         Dir [injected_layer ''buildpack.1'' [(''bin'', Dir [])],
              injected_layer ''buildpack.0'' [(''env.build'', Dir [(''A'', File (Bytes ''a''))])]]),
        (''cnbs'', Dir [fake_cnb ''buildpack.1'', fake_cnb ''buildpack.0''])]"

definition produced_layers :: "(string \<times> node) list" where
  "produced_layers =
     [(''x'', Dir [(''lib'', File (Bytes ''l''))]),
      (''x.toml'', File (LayerTOML \<lparr>Build = False, Launch = True, Cache = True\<rparr>)),
      (''y'', Dir [(''bin'', Dir [])]),
      (''y.toml'', File (LayerTOML \<lparr>Build = True, Launch = False, Cache = False\<rparr>)),
      (''z'', Dir [])]"

definition tool_layers :: "(string \<times> node) list" where
  "tool_layers =
     [(''m'', Dir [(''f'', File (Bytes ''m''))]),
      (''m.toml'', File (LayerTOML \<lparr>Build = False, Launch = False, Cache = True\<rparr>))]"

definition layers_world :: world where
  "layers_world =
     tmp_home_world
       [(''cache'', Dir [(''cnb'', Dir [(''org.lang'', Dir [(''x'', Dir [(''stale'', File (Bytes ''s''))])])])]),
        (''deps'', Dir [])]
       [(''deps'', Dir [(''org.tool'', Dir tool_layers),
                        (''org.lang'', Dir produced_layers),
                        (''config'', Dir [(''metadata.toml'', File (Bytes ''meta''))])])]"

definition persisted_world :: world where
  "persisted_world =
     tmp_home_world
       [(''cache'', Dir [(''cnb'', Dir
           [(''org.lang'',
             Dir [(''x'', Dir [(''lib'', File (Bytes ''l''))]),
                  (''x.toml'', File (LayerTOML \<lparr>Build = False, Launch = True, Cache = True\<rparr>))]),
            (''org.tool'', Dir tool_layers)])]),
        (''deps'', Dir [(''config'', Dir [(''metadata.toml'', File (Bytes ''meta''))]),
                        (''org.lang'', Dir produced_layers),
                        (''org.tool'', Dir tool_layers)]),
        (''app'', Dir [(''.cloudfoundry'', Dir [(''metadata.toml'', File (Bytes ''meta''))])])]
       [(''deps'', Dir [(''org.tool'', Dir tool_layers), (''org.lang'', Dir produced_layers)])]"



section \<open>Notions used in the statements\<close>

text \<open>The order a fragment file of the order directory decodes to, if it does.\<close>

definition fragment_at :: "world \<Rightarrow> path \<Rightarrow> string \<Rightarrow> order option" where
  "fragment_at w dir name =
     (case walk (fs w) (dir @ [name]) of Inr (File c) \<Rightarrow> decode_order c | _ \<Rightarrow> None)"

text \<open>Two dependency records with the same identity for override purposes: id and version.\<close>

definition same_key :: "V3Dependency \<Rightarrow> V3Dependency \<Rightarrow> bool" where
  "same_key a b = (ID a = ID b \<and> Version a = Version b)"

text \<open>A property of every file of a tree; an override file with at most one manifest.\<close>

fun all_files :: "(content \<Rightarrow> bool) \<Rightarrow> node \<Rightarrow> bool" where
  "all_files P (File c) = P c"
| "all_files P (Dir es) = (\<forall>e \<in> set es. all_files P (snd e))"

definition single_manifest :: "content \<Rightarrow> bool" where
  "single_manifest c = (case c of OverrideYML m \<Rightarrow> length m \<le> 1 | _ \<Rightarrow> True)"

text \<open>Two paths neither of which lies on or below the other.\<close>

definition unrelated :: "path \<Rightarrow> path \<Rightarrow> bool" where
  "unrelated p q = (\<not> prefix p q \<and> \<not> prefix q p)"

text \<open>
  One visit of the injector to a legacy index: skipped when \<open>os.Stat\<close> reports the index's
  directory as not existing, otherwise the five injection steps in order (relocate the layer,
  write the sidecar, rename the env directory, update the group, synthesize the descriptor),
  stopping at the first error. Visiting a sequence of indices stops at the first error.
\<close>

definition visit :: "Finalizer \<Rightarrow> nat \<Rightarrow> world \<Rightarrow> error + world" where
  "visit f i w =
     (let v2Layer = filepath_Join (V2DepsDir f) [strconv_Itoa (int i)]
      in if err_IsNotExist (os_Stat v2Layer w) then Inr w
         else
           (let buildpackID = ''buildpack.'' @ strconv_Itoa (int i);
                v3Layer = filepath_Join (V3LayersDir f) [buildpackID, ''layer'']
            in case MoveV2Layers f v2Layer v3Layer w of
                 Inl err \<Rightarrow> Inl err
               | Inr w1 \<Rightarrow>
                   (case WriteLayerMetadata f v3Layer w1 of
                      Inl err \<Rightarrow> Inl err
                    | Inr w2 \<Rightarrow>
                        (case RenameEnvDir f v3Layer w2 of
                           Inl err \<Rightarrow> Inl err
                         | Inr w3 \<Rightarrow>
                             (case UpdateGroupTOML f buildpackID w3 of
                                Inl err \<Rightarrow> Inl err
                              | Inr w4 \<Rightarrow> AddFakeCNBBuildpack f buildpackID w4)))))"

fun visit_all :: "Finalizer \<Rightarrow> nat list \<Rightarrow> world \<Rightarrow> error + world" where
  "visit_all f [] w = Inr w"
| "visit_all f (i # is) w =
     (case visit f i w of Inl err \<Rightarrow> Inl err | Inr w' \<Rightarrow> visit_all f is w')"

text \<open>The reference the injector prepends for the legacy buildpack of an index.\<close>

definition legacy_ref :: "nat \<Rightarrow> buildpack" where
  "legacy_ref i = \<lparr>bp_ID = ''buildpack.'' @ strconv_Itoa (int i), bp_Name = [], bp_Version = []\<rparr>"

text \<open>
  A layer of a buildpack's layers directory is flagged for the cache when its sidecar, the
  file of the layer's name with the extension \<open>.toml\<close>, decodes to metadata with
  \<open>cache = true\<close>.
\<close>

definition cache_flagged :: "(string \<times> node) list \<Rightarrow> string \<Rightarrow> bool" where
  "cache_flagged es l =
     (case map_of es (l @ ''.toml'') of
        Some (File c) \<Rightarrow> (case decode_LayerMetadata c of Some md \<Rightarrow> Cache md | None \<Rightarrow> False)
      | _ \<Rightarrow> False)"

text \<open>A name without its last five characters.\<close>

definition strip5 :: "string \<Rightarrow> string" where
  "strip5 n = take (length n - 5) n"




text \<open>Directories that lie apart: none is on or below another.\<close>

fun apart :: "path list \<Rightarrow> bool" where
  "apart [] = True"
| "apart (p # ps) = ((\<forall>q \<in> set ps. unrelated p q) \<and> apart ps)"

section \<open>Facts about the filesystem\<close>

lemma walk_append:
  "walk n (p @ q) = (case walk n p of Inl e \<Rightarrow> Inl e | Inr m \<Rightarrow> walk m q)"
  by (induction p arbitrary: n) (auto split: sum.splits)

lemma walk_put_same: "put p new r = Inr r' \<Longrightarrow> walk r' (p @ q) = walk new q"
  by (induction p arbitrary: r r')
     (auto simp: update_conv' split: node.splits option.splits sum.splits if_splits)

lemma walk_put_other:
  "put p new r = Inr r' \<Longrightarrow> \<not> prefix p q \<Longrightarrow> \<not> prefix q p \<Longrightarrow> walk r' q = walk r q"
proof (induction p arbitrary: r r' q)
  case Nil
  then show ?case by simp
next
  case (Cons c cs)
  then show ?case
    by (cases q) (auto simp: update_conv' split: node.splits option.splits sum.splits if_splits)
qed

lemma walk_del_same: "del p r = Inr r' \<Longrightarrow> walk r' p = Inl ENOENT"
  by (induction p arbitrary: r r')
     (auto simp: update_conv' delete_conv' split: node.splits option.splits sum.splits if_splits)

lemma walk_del_other:
  "del p r = Inr r' \<Longrightarrow> \<not> prefix p q \<Longrightarrow> \<not> prefix q p \<Longrightarrow> walk r' q = walk r q"
proof (induction p arbitrary: r r' q)
  case Nil
  then show ?case by simp
next
  case (Cons c cs)
  then show ?case
    by (cases q) (auto simp: update_conv' delete_conv' split: node.splits option.splits sum.splits if_splits)
qed

lemma del_walk_err: "p \<noteq> [] \<Longrightarrow> walk r p = Inl e \<Longrightarrow> del p r = Inl e"
proof (induction p arbitrary: r)
  case Nil
  then show ?case by simp
next
  case (Cons c cs)
  show ?case
  proof (cases r)
    case (File x)
    with Cons.prems show ?thesis by simp
  next
    case (Dir es)
    show ?thesis
    proof (cases "map_of es c")
      case None
      with Dir Cons.prems show ?thesis by simp
    next
      case (Some m)
      show ?thesis
      proof (cases "cs = []")
        case True
        with Dir Some Cons.prems show ?thesis by simp
      next
        case False
        from Dir Some Cons.prems have "walk m cs = Inl e" by simp
        with False have "del cs m = Inl e" by (rule Cons.IH)
        with Dir Some False show ?thesis by simp
      qed
    qed
  qed
qed

lemma del_walk_ok: "p \<noteq> [] \<Longrightarrow> walk r p = Inr n \<Longrightarrow> \<exists>r'. del p r = Inr r'"
proof (induction p arbitrary: r)
  case Nil
  then show ?case by simp
next
  case (Cons c cs)
  show ?case
  proof (cases r)
    case (File x)
    with Cons.prems show ?thesis by simp
  next
    case (Dir es)
    show ?thesis
    proof (cases "map_of es c")
      case None
      with Dir Cons.prems show ?thesis by simp
    next
      case (Some m)
      show ?thesis
      proof (cases "cs = []")
        case True
        with Dir Some show ?thesis by simp
      next
        case False
        from Dir Some Cons.prems have "walk m cs = Inr n" by simp
        with False obtain m' where "del cs m = Inr m'" using Cons.IH by blast
        with Dir Some False show ?thesis by simp
      qed
    qed
  qed
qed

lemma put_ok:
  "p \<noteq> [] \<Longrightarrow> walk r (butlast p) = Inr (Dir es) \<Longrightarrow> \<exists>r'. put p new r = Inr r'"
proof (induction p arbitrary: r)
  case Nil
  then show ?case by simp
next
  case (Cons c cs)
  show ?case
  proof (cases "cs = []")
    case True
    with Cons.prems show ?thesis by simp
  next
    case False
    with Cons.prems obtain ds m where r: "r = Dir ds" "map_of ds c = Some m"
      and w: "walk m (butlast cs) = Inr (Dir es)"
      by (cases r) (auto split: option.splits)
    from False w obtain m' where "put cs new m = Inr m'" using Cons.IH by blast
    with r False show ?thesis by simp
  qed
qed

lemma del_butlast: "del p r = Inr r' \<Longrightarrow> \<exists>es. walk r' (butlast p) = Inr (Dir es)"
proof (induction p arbitrary: r r')
  case Nil
  then show ?case by simp
next
  case (Cons c cs)
  show ?case
  proof (cases "cs = []")
    case True
    with Cons.prems show ?thesis by (auto split: node.splits option.splits)
  next
    case False
    with Cons.prems obtain ds m m' where r: "r = Dir ds" "map_of ds c = Some m"
      and d: "del cs m = Inr m'" and r': "r' = Dir (AList.update c m' ds)"
      by (auto split: node.splits option.splits sum.splits)
    from Cons.IH [OF d] obtain es where "walk m' (butlast cs) = Inr (Dir es)" by blast
    with False r' show ?thesis by (simp add: update_conv')
  qed
qed

lemma del_above:
  "del p r = Inr r' \<Longrightarrow> strict_prefix q p \<Longrightarrow> \<exists>es. walk r' q = Inr (Dir es)"
proof (induction p arbitrary: q r r')
  case Nil
  then show ?case by simp
next
  case (Cons c cs)
  show ?case
  proof (cases q)
    case Nil
    with Cons.prems show ?thesis
      by (auto split: node.splits option.splits sum.splits if_splits)
  next
    case (Cons d q')
    with Cons.prems(2) have dq: "d = c" "strict_prefix q' cs" by auto
    then have ne: "cs \<noteq> []" by auto
    with Cons.prems(1) obtain ds m m' where r: "r = Dir ds" "map_of ds c = Some m"
      and d: "del cs m = Inr m'" and r': "r' = Dir (AList.update c m' ds)"
      by (auto split: node.splits option.splits sum.splits)
    from Cons.IH [OF d dq(2)] obtain es where "walk m' q' = Inr (Dir es)" by blast
    with Cons dq r' show ?thesis by (simp add: update_conv')
  qed
qed

lemma put_above:
  "put p new r = Inr r' \<Longrightarrow> strict_prefix q p \<Longrightarrow> \<exists>es. walk r' q = Inr (Dir es)"
proof (induction p arbitrary: q r r')
  case Nil
  then show ?case by simp
next
  case (Cons c cs)
  show ?case
  proof (cases q)
    case Nil
    with Cons.prems show ?thesis
      by (auto split: node.splits option.splits sum.splits if_splits)
  next
    case (Cons d q')
    with Cons.prems(2) have dq: "d = c" "strict_prefix q' cs" by auto
    then have ne: "cs \<noteq> []" by auto
    with Cons.prems(1) obtain ds m m' where r: "r = Dir ds" "map_of ds c = Some m"
      and d: "put cs new m = Inr m'" and r': "r' = Dir (AList.update c m' ds)"
      by (auto split: node.splits option.splits sum.splits)
    from Cons.IH [OF d dq(2)] obtain es where "walk m' q' = Inr (Dir es)" by blast
    with Cons dq r' show ?thesis by (simp add: update_conv')
  qed
qed

lemma rename_moved:
  assumes "rename old new r = Inr r'" and "\<not> prefix new old" and "walk r old = Inr src"
  shows "walk r' (new @ q) = walk src q" and "walk r' old = Inl ENOENT"
proof -
  from assms(2) have ne: "old \<noteq> new" by auto
  from assms(1) have np: "\<not> prefix old new"
    by (auto simp: rename_def ne split: if_splits sum.splits node.splits)
  from assms(1,3) ne have "move old new src r = Inr r'"
    by (auto simp: rename_def split: if_splits sum.splits node.splits)
  then obtain r1 where d: "del old r = Inr r1" and p: "put new src r1 = Inr r'"
    by (auto simp: move_def split: sum.splits)
  from p show "walk r' (new @ q) = walk src q" by (rule walk_put_same)
  from walk_put_other [OF p assms(2) np] walk_del_same [OF d]
  show "walk r' old = Inl ENOENT" by simp
qed

lemma rename_frame:
  assumes "rename old new r = Inr r'"
    and "\<not> prefix old q" "\<not> prefix q old" "\<not> prefix new q" "\<not> prefix q new"
  shows "walk r' q = walk r q"
proof (cases "old = new")
  case True
  with assms(1) show ?thesis
    by (auto simp: rename_def split: if_splits sum.splits node.splits)
next
  case False
  with assms(1) obtain src where "move old new src r = Inr r'"
    by (auto simp: rename_def split: if_splits sum.splits node.splits)
  then obtain r1 where d: "del old r = Inr r1" and p: "put new src r1 = Inr r'"
    by (auto simp: move_def split: sum.splits)
  from walk_put_other [OF p assms(4,5)] walk_del_other [OF d assms(2,3)]
  show ?thesis by simp
qed

lemma rename_fresh_ok:
  assumes "walk r old = Inr src" and "walk r new = Inl ENOENT"
    and "walk r (butlast new) = Inr (Dir ps)" and "\<not> prefix old new" and "old \<noteq> []"
  shows "\<exists>r'. rename old new r = Inr r'"
proof -
  from assms(2) have nn: "new \<noteq> []" by auto
  from assms(1,2) have ne: "old \<noteq> new" by auto
  from del_walk_ok [OF assms(5) assms(1)] obtain r1 where d: "del old r = Inr r1" by blast
  have a: "\<not> prefix old (butlast new)"
    using assms(4) by (metis prefix_order.order_trans prefixeq_butlast)
  have "\<exists>es. walk r1 (butlast new) = Inr (Dir es)"
  proof (cases "prefix (butlast new) old")
    case False
    from walk_del_other [OF d a False] assms(3) show ?thesis by simp
  next
    case True
    with a have "strict_prefix (butlast new) old" by (auto simp: strict_prefix_def)
    with d show ?thesis by (rule del_above)
  qed
  then obtain es where "walk r1 (butlast new) = Inr (Dir es)" by blast
  from put_ok [OF nn this] obtain r' where "put new src r1 = Inr r'" by blast
  with d assms ne nn show ?thesis by (auto simp: rename_def move_def)
qed

lemma move_sibling_ok:
  assumes "walk r (d @ [a]) = Inr n"
  shows "\<exists>r'. move (d @ [a]) (d @ [b]) n r = Inr r'"
proof -
  from del_walk_ok [OF _ assms] obtain r1 where d: "del (d @ [a]) r = Inr r1" by auto
  have "strict_prefix d (d @ [a])" by (simp add: strict_prefix_def)
  from del_above [OF d this] obtain es where "walk r1 (butlast (d @ [b])) = Inr (Dir es)"
    by (auto simp: butlast_append)
  from put_ok [OF _ this] obtain r' where "put (d @ [b]) n r1 = Inr r'" by auto
  with d show ?thesis by (simp add: move_def)
qed

lemma rename_sibling_not_ENOENT:
  assumes "walk r (d @ [a]) = Inr n"
  shows "rename (d @ [a]) (d @ [b]) r \<noteq> Inl ENOENT"
proof -
  from assms obtain ps where p: "walk r d = Inr (Dir ps)"
    by (cases "walk r d") (auto simp: walk_append split: sum.splits node.splits elim: child.elims)
  from move_sibling_ok [OF assms] obtain r' where "move (d @ [a]) (d @ [b]) n r = Inr r'"
    by blast
  with assms p show ?thesis
    by (auto simp: rename_def butlast_append split: sum.splits node.splits)
qed

lemma rename_sibling_fresh:
  assumes "walk r (d @ [a]) = Inr n" and "walk r (d @ [b]) = Inl ENOENT"
  shows "\<exists>r'. rename (d @ [a]) (d @ [b]) r = Inr r'"
proof -
  from assms(1) obtain ps where p: "walk r d = Inr (Dir ps)"
    by (cases "walk r d") (auto simp: walk_append split: sum.splits node.splits elim: child.elims)
  from assms have ne: "a \<noteq> b" by auto
  from move_sibling_ok [OF assms(1)] obtain r' where "move (d @ [a]) (d @ [b]) n r = Inr r'"
    by blast
  with assms p ne show ?thesis
    by (auto simp: rename_def butlast_append)
qed

section \<open>Facts about the order merger and the detector\<close>

lemma RunLifecycleDetect_neq: "RunLifecycleDetect f w \<noteq> Inr w"
  by (cases "Detector f (fs w)") (auto simp: RunLifecycleDetect_def dest: arg_cong [where f = detector_calls])

lemma parse_fragments_length:
  "parse_fragments dir w names = Inr ords \<Longrightarrow> length ords = length names"
  by (induction names arbitrary: ords) (auto split: sum.splits option.splits)

lemma parse_fragments_nth:
  "parse_fragments dir w names = Inr ords \<Longrightarrow> k < length names \<Longrightarrow>
     \<exists>c. walk (fs w) (dir @ [names ! k]) = Inr (File c) \<and> decode_order c = Some (ords ! k)"
proof (induction names arbitrary: ords k)
  case Nil
  then show ?case by simp
next
  case (Cons name names)
  then show ?case
    by (cases k) (auto simp: ioutil_ReadFile_def split: sum.splits option.splits node.splits)
qed

lemma parse_fragments_not_NoOrder:
  "parse_fragments dir w names \<noteq> Inl NoOrderTomlFound"
  by (induction names) (auto simp: ioutil_ReadFile_def split: sum.splits option.splits node.splits)

lemma parseOrderTOMLs_not_NoOrder: "parseOrderTOMLs dir w \<noteq> Inl NoOrderTomlFound"
  by (auto simp: parseOrderTOMLs_def parse_fragments_not_NoOrder split: sum.splits node.splits)

lemma encodeTOML_not_NoOrder: "encodeTOML dest data w \<noteq> Inl NoOrderTomlFound"
  by (auto simp: encodeTOML_def on_fs_def split: sum.splits)

lemma parseOrderTOMLs_empty:
  "parseOrderTOMLs dir w = Inr [] \<longleftrightarrow>
     (\<exists>es. walk (fs w) dir = Inr (Dir es) \<and> discover_fragments es = [])"
proof
  assume a: "parseOrderTOMLs dir w = Inr []"
  then obtain es where es: "walk (fs w) dir = Inr (Dir es)"
    and p: "parse_fragments dir w (map snd (discover_fragments es)) = Inr []"
    by (auto simp: parseOrderTOMLs_def split: sum.splits node.splits)
  from parse_fragments_length [OF p] have "discover_fragments es = []" by simp
  with es show "\<exists>es. walk (fs w) dir = Inr (Dir es) \<and> discover_fragments es = []" by blast
next
  assume "\<exists>es. walk (fs w) dir = Inr (Dir es) \<and> discover_fragments es = []"
  then show "parseOrderTOMLs dir w = Inr []" by (auto simp: parseOrderTOMLs_def)
qed

lemma writeFile_walk: "writeFile p c r = Inr r' \<Longrightarrow> walk r' p = Inr (File c)"
  using walk_put_same [of p "File c" r r' "[]"]
  by (auto simp: writeFile_def split: sum.splits node.splits if_splits)

lemma writeFile_other:
  "writeFile p c r = Inr r' \<Longrightarrow> \<not> prefix p q \<Longrightarrow> \<not> prefix q p \<Longrightarrow> walk r' q = walk r q"
  using walk_put_other [of p "File c" r r' q]
  by (auto simp: writeFile_def split: sum.splits node.splits if_splits)

lemma writeFile_ok:
  assumes "p \<noteq> []" and "walk r (butlast p) = Inr (Dir ps)" and "\<forall>ds. walk r p \<noteq> Inr (Dir ds)"
  shows "\<exists>r'. writeFile p c r = Inr r'"
proof -
  from put_ok [OF assms(1,2)] obtain r' where p: "put p (File c) r = Inr r'" by blast
  have "walk r p = walk r (butlast p @ [last p])" using assms(1) by simp
  also have "\<dots> = (case map_of ps (last p) of None \<Rightarrow> Inl ENOENT | Some n \<Rightarrow> Inr n)"
    using assms(2) by (simp add: walk_append split: option.splits)
  finally have "walk r p = Inl ENOENT \<or> (\<exists>n. walk r p = Inr n)"
    by (auto split: option.splits)
  with p assms(3) show ?thesis
    by (auto simp: writeFile_def split: sum.splits node.splits)
qed

lemma parse_fragments_fragment_at:
  assumes "parse_fragments dir w names = Inr ords"
  shows "map Some ords = map (fragment_at w dir) names"
proof (rule nth_equalityI)
  show "length (map Some ords) = length (map (fragment_at w dir) names)"
    using parse_fragments_length [OF assms] by simp
next
  fix k assume "k < length (map Some ords)"
  then have k: "k < length names" using parse_fragments_length [OF assms] by simp
  from parse_fragments_nth [OF assms k] k parse_fragments_length [OF assms]
  show "map Some ords ! k = map (fragment_at w dir) names ! k"
    by (auto simp: fragment_at_def)
qed

lemma parse_fragments_ok:
  "\<forall>name \<in> set names. fragment_at w dir name \<noteq> None \<Longrightarrow> \<exists>ords. parse_fragments dir w names = Inr ords"
proof (induction names)
  case Nil
  then show ?case by simp
next
  case (Cons name names)
  then obtain ords where "parse_fragments dir w names = Inr ords" by auto
  moreover from Cons.prems obtain c ord where "walk (fs w) (dir @ [name]) = Inr (File c)"
    "decode_order c = Some ord"
    by (auto simp: fragment_at_def split: sum.splits node.splits)
  ultimately show ?case by (simp add: ioutil_ReadFile_def)
qed

lemma discover_fragments_set:
  "set (discover_fragments es) = {(i, name). name \<in> fst ` set es \<and> fragment_index name = Some i}"
  by (auto simp: discover_fragments_def split: option.splits)

lemma discover_fragments_sorted: "sorted (map fst (discover_fragments es))"
  by (simp add: discover_fragments_def)

lemma discover_order_entries:
  "discover_fragments order_entries = [(0, ''order0.toml''), (1, ''order1.toml'')]"
  by (simp add: discover_fragments_def order_entries_def fragment_index_def digit_val_def
      suffix_to_prefix)

lemmas example_paths = example_finalizer_def vcap_world_def order_entries_def

section \<open>Facts about the override engine\<close>





lemma fold_replace_at:
  "n \<le> length ds \<Longrightarrow>
   fold (replace_at d) [0..<n] (ds, b) =
     (map (\<lambda>x. if same_key x d then d else x) (take n ds) @ drop n ds,
      b \<or> (\<exists>x \<in> set (take n ds). same_key x d))"
proof (induction n)
  case 0
  then show ?case by simp
next
  case (Suc n)
  then have n: "n < length ds" by simp
  have t: "take (Suc n) ds = take n ds @ [ds ! n]" using n by (simp add: take_Suc_conv_app_nth)
  have d: "drop n ds = ds ! n # drop (Suc n) ds" using n by (simp add: Cons_nth_drop_Suc)
  have l: "length (map (\<lambda>x. if same_key x d then d else x) (take n ds)) = n" using n by simp
  show ?case
    using Suc.IH n
    apply (simp add: replace_at_def Let_def t)
    apply (simp add: d nth_append l list_update_append same_key_def)
    by auto
qed

lemma upsert_dep_eq:
  "upsert_dep ds d =
     (if \<exists>x \<in> set ds. same_key x d then map (\<lambda>x. if same_key x d then d else x) ds else ds @ [d])"
proof -
  have "fold (replace_at d) [0..<length ds] (ds, False) =
      (map (\<lambda>x. if same_key x d then d else x) ds, \<exists>x \<in> set ds. same_key x d)"
    using fold_replace_at [of "length ds" ds d False] by simp
  then show ?thesis
    by (auto simp: upsert_dep_def Let_def intro: map_idI)
qed


lemma same_key_trans: "same_key a b \<Longrightarrow> same_key x b = same_key x a"
  by (auto simp: same_key_def)






lemma all_files_walk: "all_files P r \<Longrightarrow> walk r p = Inr n \<Longrightarrow> all_files P n"
proof (induction p arbitrary: r)
  case Nil
  then show ?case by simp
next
  case (Cons c cs)
  then show ?case
    by (cases r) (auto split: option.splits sum.splits dest!: map_of_SomeD)
qed

lemma set_update_subset: "set (AList.update k v es) \<subseteq> insert (k, v) (set es)"
  by (induction es) auto

lemma all_files_put:
  "all_files P r \<Longrightarrow> all_files P new \<Longrightarrow> put p new r = Inr r' \<Longrightarrow> all_files P r'"
proof (induction p arbitrary: r r')
  case Nil
  then show ?case by simp
next
  case (Cons c cs)
  show ?case
  proof (cases r)
    case (File x)
    with Cons.prems show ?thesis by simp
  next
    case (Dir es)
    show ?thesis
    proof (cases "cs = []")
      case True
      with Dir Cons.prems have "r' = Dir (AList.update c new es)" by simp
      with Dir Cons.prems(1,2) set_update_subset [of c new es] show ?thesis by auto
    next
      case False
      with Dir Cons.prems(3) obtain m m' where m: "map_of es c = Some m"
        and p: "put cs new m = Inr m'" and r': "r' = Dir (AList.update c m' es)"
        by (auto split: option.splits sum.splits)
      from m have "(c, m) \<in> set es" by (rule map_of_SomeD)
      with Dir Cons.prems(1) have "all_files P m" by auto
      from Cons.IH [OF this Cons.prems(2) p] have "all_files P m'" .
      with r' Dir Cons.prems(1) set_update_subset [of c m' es] show ?thesis by auto
    qed
  qed
qed

lemma all_files_writeFile:
  "all_files P r \<Longrightarrow> P c \<Longrightarrow> writeFile p c r = Inr r' \<Longrightarrow> all_files P r'"
  using all_files_put [of P r "File c" p r']
  by (auto simp: writeFile_def split: sum.splits node.splits if_splits)

lemma updateBuildpackTOML_all_files:
  "all_files single_manifest (fs w) \<Longrightarrow> updateBuildpackTOML ro f ps m w = Inr w' \<Longrightarrow>
     all_files single_manifest (fs w')"
proof (induction ps arbitrary: w)
  case Nil
  then show ?case by simp
next
  case (Cons p ps)
  from Cons.prems(2) obtain d w1 where
    e: "encodeTOML p (DescriptorTOML d) w = Inr w1"
    and u: "updateBuildpackTOML ro f ps m w1 = Inr w'"
    by (auto split: sum.splits option.splits)
  from e have wf: "writeFile p (DescriptorTOML d) (fs w) = Inr (fs w1)"
    by (auto simp: encodeTOML_def on_fs_def split: sum.splits)
  have pc: "single_manifest (DescriptorTOML d)" by (simp add: single_manifest_def)
  from all_files_writeFile [OF Cons.prems(1) pc wf] have "all_files single_manifest (fs w1)" .
  from Cons.IH [OF this u] show ?case .
qed

lemma valid_order_single: "valid_order ro \<Longrightarrow> length m \<le> 1 \<Longrightarrow> ro m = m"
proof -
  assume v: "valid_order ro" and l: "length m \<le> 1"
  from v have ms: "mset (ro m) = mset m" by (simp add: valid_order_def)
  show "ro m = m"
  proof (cases m)
    case Nil
    with ms show ?thesis by simp
  next
    case (Cons x xs)
    with l have "m = [x]" by simp
    with ms show ?thesis by (simp add: mset_single_iff_right)
  qed
qed

lemma updateBuildpackTOML_order:
  "ro1 m = ro2 m \<Longrightarrow> updateBuildpackTOML ro1 f ps m w = updateBuildpackTOML ro2 f ps m w"
  by (induction ps arbitrary: w) (auto split: sum.splits option.splits)

lemma override_loop_order:
  assumes "valid_order ro1" and "valid_order ro2"
  shows "all_files single_manifest (fs w) \<Longrightarrow>
     override_loop ro1 f bps ops w = override_loop ro2 f bps ops w"
proof (induction ops arbitrary: w)
  case Nil
  then show ?case by simp
next
  case (Cons p ops)
  show ?case
  proof (cases "ioutil_ReadFile p w")
    case (Inl e)
    then show ?thesis by simp
  next
    case (Inr c)
    show ?thesis
    proof (cases "decode_override c")
      case None
      with Inr show ?thesis by simp
    next
      case (Some m)
      then have c: "c = OverrideYML m" by (cases c) auto
      from Inr have "walk (fs w) p = Inr (File c)"
        by (auto simp: ioutil_ReadFile_def split: sum.splits node.splits)
      from all_files_walk [OF Cons.prems this] c have "length m \<le> 1"
        by (simp add: single_manifest_def)
      with assms have "ro1 m = ro2 m" by (simp add: valid_order_single)
      then have u: "updateBuildpackTOML ro1 f bps m w = updateBuildpackTOML ro2 f bps m w"
        by (rule updateBuildpackTOML_order)
      show ?thesis
      proof (cases "updateBuildpackTOML ro2 f bps m w")
        case (Inl e)
        with Inr Some u show ?thesis by simp
      next
        case (Inr w1)
        from updateBuildpackTOML_all_files [OF Cons.prems Inr]
        have "all_files single_manifest (fs w1)" .
        from Cons.IH [OF this] Inr u Some \<open>ioutil_ReadFile p w = Inr c\<close>
        show ?thesis by simp
      qed
    qed
  qed
qed

lemma glob_example:
  "concat (map (glob (literal ''override.yml'') (fs (override_world m)))
           (glob star (fs (override_world m)) (V2DepsDir example_finalizer))) =
     [[''tmp'', ''deps'', ''0'', ''override.yml'']]"
  "concat (map (glob (literal ''buildpack.toml'') (fs (override_world m)))
       (concat (map (glob star (fs (override_world m)))
          (glob star (fs (override_world m)) (V3BuildpacksDir example_finalizer))))) =
     [descriptor_path]"
  by (simp_all add: glob_def star_def literal_def override_world_def example_finalizer_def
      descriptor_path_def)

lemma apply_example:
  "descriptor_deps (ApplyOverrideYMLs ro example_finalizer (override_world m)) =
     Dependencies (fold (\<lambda>entry. apply_manifest (snd entry)) (ro m) empty_BuildpackTOML)"
  unfolding ApplyOverrideYMLs_def Let_def glob_example
  by (simp add: descriptor_deps_def override_world_def descriptor_path_def ioutil_ReadFile_def
      encodeTOML_def on_fs_def writeFile_def)










section \<open>Facts about moving directories\<close>

lemma unrelated_sym: "unrelated p q \<Longrightarrow> unrelated q p"
  by (simp add: unrelated_def)

lemma unrelated_append: "unrelated p q \<Longrightarrow> unrelated (p @ a) (q @ b)"
proof -
  assume u: "unrelated p q"
  have "prefix p q \<or> prefix q p" if "prefix (p @ a) (q @ b)"
  proof -
    from that have "prefix p (q @ b)" by (meson prefix_order.order_trans prefixI)
    then show ?thesis by (auto simp: prefix_append)
  qed
  moreover have "prefix p q \<or> prefix q p" if "prefix (q @ b) (p @ a)"
  proof -
    from that have "prefix q (p @ a)" by (meson prefix_order.order_trans prefixI)
    then show ?thesis by (auto simp: prefix_append)
  qed
  ultimately show ?thesis using u by (auto simp: unrelated_def)
qed

lemma unrelated_sibling: "a \<noteq> b \<Longrightarrow> unrelated (p @ [a]) (p @ [b])"
  by (simp add: unrelated_def)

lemma on_fs_Inr:
  "on_fs op w = Inr w' \<Longrightarrow>
     op (fs w) = Inr (fs w') \<and> cf_stack w' = cf_stack w \<and> detector_calls w' = detector_calls w"
  by (auto simp: on_fs_def split: sum.splits)

lemma os_Rename_frame:
  "os_Rename old new w = Inr w' \<Longrightarrow> unrelated q old \<Longrightarrow> unrelated q new \<Longrightarrow>
     walk (fs w') q = walk (fs w) q"
  using rename_frame [of old new "fs w" "fs w'" q]
  by (auto simp: os_Rename_def unrelated_def dest!: on_fs_Inr)

lemma os_Rename_moved:
  assumes "os_Rename old new w = Inr w'" and "\<not> prefix new old"
  shows "\<exists>src. walk (fs w) old = Inr src \<and> walk (fs w') new = Inr src \<and>
           walk (fs w') old = Inl ENOENT"
proof -
  from assms(1) have r: "rename old new (fs w) = Inr (fs w')"
    by (auto simp: os_Rename_def dest!: on_fs_Inr)
  then obtain src where s: "walk (fs w) old = Inr src"
    by (auto simp: rename_def split: if_splits sum.splits)
  from rename_moved(1) [OF r assms(2) s, of "[]"] rename_moved(2) [OF r assms(2) s] s
  show ?thesis by simp
qed

lemma move_entries_frame:
  "move_entries src dst names w = Inr w' \<Longrightarrow>
   \<forall>name \<in> set names. unrelated q (src @ [name]) \<and> unrelated q (dst @ [name]) \<Longrightarrow>
   walk (fs w') q = walk (fs w) q"
proof (induction names arbitrary: w)
  case Nil
  then show ?case by simp
next
  case (Cons k names)
  from Cons.prems(1) obtain w1 where r: "os_Rename (src @ [k]) (dst @ [k]) w = Inr w1"
    and m: "move_entries src dst names w1 = Inr w'"
    by (auto split: sum.splits)
  from Cons.IH [OF m] Cons.prems(2) have "walk (fs w') q = walk (fs w1) q" by simp
  also from os_Rename_frame [OF r] Cons.prems(2) have "\<dots> = walk (fs w) q" by simp
  finally show ?case .
qed

lemma move_entries_moved:
  assumes u: "unrelated src dst"
  shows "move_entries src dst names w = Inr w' \<Longrightarrow> distinct names \<Longrightarrow> name \<in> set names \<Longrightarrow>
   (\<exists>n. walk (fs w) (src @ [name]) = Inr n \<and> walk (fs w') (dst @ [name]) = Inr n) \<and>
   walk (fs w') (src @ [name]) = Inl ENOENT"
proof (induction names arbitrary: w)
  case Nil
  then show ?case by simp
next
  case (Cons k names)
  from Cons.prems(1) obtain w1 where r: "os_Rename (src @ [k]) (dst @ [k]) w = Inr w1"
    and m: "move_entries src dst names w1 = Inr w'"
    by (auto split: sum.splits)
  from Cons.prems(2) have d: "distinct names" and k: "k \<notin> set names" by auto
  have us: "unrelated (src @ a) (dst @ b)" for a b using u by (rule unrelated_append)
  show ?case
  proof (cases "name = k")
    case True
    from us [of "[k]" "[k]"] have "\<not> prefix (dst @ [k]) (src @ [k])" by (simp add: unrelated_def)
    from os_Rename_moved [OF r this] obtain n where
      n: "walk (fs w) (src @ [k]) = Inr n" "walk (fs w1) (dst @ [k]) = Inr n"
      "walk (fs w1) (src @ [k]) = Inl ENOENT" by blast
    have f1: "\<forall>x \<in> set names. unrelated (dst @ [k]) (src @ [x]) \<and> unrelated (dst @ [k]) (dst @ [x])"
    proof
      fix x assume "x \<in> set names"
      with k have "k \<noteq> x" by auto
      then have "unrelated (dst @ [k]) (dst @ [x])" by (rule unrelated_sibling)
      moreover have "unrelated (dst @ [k]) (src @ [x])" by (rule unrelated_sym [OF us])
      ultimately show "unrelated (dst @ [k]) (src @ [x]) \<and> unrelated (dst @ [k]) (dst @ [x])"
        by simp
    qed
    have f2: "\<forall>x \<in> set names. unrelated (src @ [k]) (src @ [x]) \<and> unrelated (src @ [k]) (dst @ [x])"
    proof
      fix x assume "x \<in> set names"
      with k have "k \<noteq> x" by auto
      then have "unrelated (src @ [k]) (src @ [x])" by (rule unrelated_sibling)
      with us show "unrelated (src @ [k]) (src @ [x]) \<and> unrelated (src @ [k]) (dst @ [x])"
        by simp
    qed
    from move_entries_frame [OF m f1] move_entries_frame [OF m f2] n True
    show ?thesis by simp
  next
    case False
    with Cons.prems(3) have i: "name \<in> set names" by simp
    have "unrelated (src @ [name]) (src @ [k])" "unrelated (src @ [name]) (dst @ [k])"
      using False us by (simp_all add: unrelated_sibling)
    from os_Rename_frame [OF r this] have "walk (fs w1) (src @ [name]) = walk (fs w) (src @ [name])" .
    with Cons.IH [OF m d i] show ?thesis by simp
  qed
qed

lemma map_of_names: "map_of es name = Some n \<Longrightarrow> name \<in> set (sort (remdups (map fst es)))"
  by (auto dest!: map_of_SomeD intro: rev_image_eqI)

lemma walk_child:
  "walk r p = Inr (Dir es) \<Longrightarrow>
     walk r (p @ [name]) = (case map_of es name of None \<Rightarrow> Inl ENOENT | Some n \<Rightarrow> Inr n)"
  by (simp add: walk_append split: option.splits)

lemma restore_example:
  "RestoreV3Cache example_finalizer
     (tmp_home_world [(''cache'', Dir [(''cnb'', Dir cached_layers)])]
        [(''deps'', Dir [(''buildpack.0'', Dir [])])]) =
   Inr (tmp_home_world [(''cache'', Dir [(''cnb'', Dir [])])]
        [(''deps'', Dir ((''buildpack.0'', Dir []) # cached_layers))])"
  by (simp add: RestoreV3Cache_def FileExists_def os_Stat_def filepath_Join_def MoveDirectory_def
      os_Rename_def on_fs_def rename_def move_def tmp_home_world_def example_finalizer_def
      cached_layers_def)

section \<open>Facts about the injector of legacy buildpacks\<close>

lemma include_loop_neg: "i < 0 \<Longrightarrow> include_loop f i w = Inr w"
  by (subst include_loop.simps) simp

lemma include_loop_step:
  "include_loop f (int n) w =
     (case visit f n w of Inl err \<Rightarrow> Inl err | Inr w' \<Rightarrow> include_loop f (int n - 1) w')"
  by (subst include_loop.simps)
     (simp add: visit_def Let_def split: sum.splits)

lemma include_loop_nat: "include_loop f (int n - 1) w = visit_all f (rev [0..<n]) w"
proof (induction n arbitrary: w)
  case 0
  then show ?case by (simp add: include_loop_neg)
next
  case (Suc n)
  have "int (Suc n) - 1 = int n" by simp
  then show ?case using Suc.IH by (simp add: include_loop_step split: sum.splits)
qed

lemma parse_digits_range:
  assumes "strconv_Atoi s = Inr v"
  shows "- (2 ^ 63) \<le> v \<and> v \<le> 2 ^ 63 - 1"
  using assms
  by (auto simp: strconv_Atoi_def Let_def split: if_splits option.splits)

lemma wrap64_id: "- (2 ^ 63) \<le> x \<Longrightarrow> x \<le> 2 ^ 63 - 1 \<Longrightarrow> wrap64 x = x"
  by (simp add: wrap64_def)

lemma digit_val_digit_char: "d < 10 \<Longrightarrow> digit_val (digit_char d) = Some d"
  by (simp add: digit_val_def digit_char_def Let_def)

lemma parse_digits_append:
  "parse_digits a (xs @ ys) =
     (case parse_digits a xs of None \<Rightarrow> None | Some b \<Rightarrow> parse_digits b ys)"
  by (induction xs arbitrary: a) (auto split: option.splits)

lemma parse_digits_digits: "parse_digits 0 (digits n) = Some n"
proof (induction n rule: digits.induct)
  case (1 n)
  show ?case
  proof (cases "n < 10")
    case True
    then show ?thesis by (subst digits.simps) (simp add: digit_val_digit_char)
  next
    case False
    with "1" have "parse_digits 0 (digits (n div 10)) = Some (n div 10)" by simp
    with False show ?thesis
      by (subst digits.simps) (simp add: parse_digits_append digit_val_digit_char)
  qed
qed

lemma digits_inj: "digits i = digits j \<Longrightarrow> i = j"
proof -
  assume "digits i = digits j"
  then have "parse_digits 0 (digits i) = parse_digits 0 (digits j)" by (rule arg_cong)
  then show "i = j" by (simp only: parse_digits_digits option.inject)
qed

lemma digits_nonempty: "digits n \<noteq> []"
  by (subst digits.simps) simp

lemma hd_digits_digit: "digit_val (hd (digits n)) \<noteq> None"
  using parse_digits_digits [of n] digits_nonempty [of n]
  by (cases "digits n") (auto split: option.splits)

lemma Itoa_nat: "strconv_Itoa (int n) = digits n"
  by (simp add: strconv_Itoa_def)

lemma Itoa_inj: "strconv_Itoa (int i) = strconv_Itoa (int j) \<Longrightarrow> i = j"
  by (simp add: Itoa_nat digits_inj)

lemma Atoi_digits:
  assumes "strconv_Atoi (digits i) = Inr v"
  shows "v = int i"
proof -
  have "digit_val (CHR ''-'') = None" "digit_val (CHR ''+'') = None"
    by (simp_all add: digit_val_def)
  with hd_digits_digit [of i] have "hd (digits i) \<noteq> CHR ''-''" "hd (digits i) \<noteq> CHR ''+''"
    by auto
  with assms show ?thesis
    by (auto simp: strconv_Atoi_def Let_def parse_digits_digits digits_nonempty split: if_splits)
qed

lemma DepsIndex_other:
  "strconv_Atoi s = Inr (int k) \<Longrightarrow> i \<noteq> k \<Longrightarrow> s \<noteq> strconv_Itoa (int i)"
  using Atoi_digits [of i "int k"] by (auto simp: Itoa_nat)

lemma unrelated_ext: "unrelated q p \<Longrightarrow> unrelated q (p @ a)"
  using unrelated_append [of q p "[]" a] by simp

lemma unrelated_Nil: "\<not> unrelated q []"
  by (simp add: unrelated_def)

lemma unrelated_Cons: "unrelated (d # q) (c # p) \<longleftrightarrow> d \<noteq> c \<or> unrelated q p"
  by (auto simp: unrelated_def)

lemma mkdirAll_frame: "mkdirAll p r = Inr r' \<Longrightarrow> unrelated q p \<Longrightarrow> walk r' q = walk r q"
proof (induction p arbitrary: q r r')
  case Nil
  then show ?case by (simp add: unrelated_Nil)
next
  case (Cons c cs)
  from Cons.prems(1) obtain es m' where r: "r = Dir es"
    and m: "mkdirAll cs (case map_of es c of None \<Rightarrow> Dir [] | Some m \<Rightarrow> m) = Inr m'"
    and r': "r' = Dir (AList.update c m' es)"
    by (cases r) (auto split: sum.splits)
  show ?case
  proof (cases q)
    case Nil
    with Cons.prems(2) show ?thesis by (simp add: unrelated_def)
  next
    case (Cons d q')
    show ?thesis
    proof (cases "d = c")
      case False
      with Cons r r' show ?thesis by (simp add: update_conv')
    next
      case True
      with Cons Cons.prems(2) have u: "unrelated q' cs" by (simp add: unrelated_Cons)
      then have ne: "q' \<noteq> []" by (auto simp: unrelated_def)
      from Cons.IH [OF m u] have i: "walk m' q' =
          walk (case map_of es c of None \<Rightarrow> Dir [] | Some m \<Rightarrow> m) q'" .
      from ne have "walk (Dir []) q' = Inl ENOENT" by (cases q') auto
      with i True Cons r r' show ?thesis
        by (simp add: update_conv' split: option.splits)
    qed
  qed
qed

lemma os_MkdirAll_frame:
  "os_MkdirAll p w = Inr w' \<Longrightarrow> unrelated q p \<Longrightarrow> walk (fs w') q = walk (fs w) q"
  using mkdirAll_frame [of p "fs w" "fs w'" q]
  by (auto simp: os_MkdirAll_def dest!: on_fs_Inr)

lemma os_RemoveAll_frame:
  "os_RemoveAll p w = Inr w' \<Longrightarrow> unrelated q p \<Longrightarrow> walk (fs w') q = walk (fs w) q"
  using walk_del_other [of p "fs w" "fs w'" q]
  by (auto simp: os_RemoveAll_def removeAll_def unrelated_def dest!: on_fs_Inr
      split: sum.splits if_splits)

lemma on_writeFile_frame:
  "on_fs (writeFile p c) w = Inr w' \<Longrightarrow> unrelated q p \<Longrightarrow> walk (fs w') q = walk (fs w) q"
  using writeFile_other [of p c "fs w" "fs w'" q]
  by (auto simp: unrelated_def dest!: on_fs_Inr)

lemma on_writeFile_walk:
  "on_fs (writeFile p c) w = Inr w' \<Longrightarrow> walk (fs w') p = Inr (File c)"
  using writeFile_walk [of p c "fs w" "fs w'"] by (auto dest!: on_fs_Inr)

lemma MoveV2Layers_frame:
  assumes "MoveV2Layers f src (d @ [a, b]) w = Inr w'" and "unrelated q src" and "unrelated q d"
  shows "walk (fs w') q = walk (fs w) q"
proof -
  from assms(1) obtain w1 where m: "os_MkdirAll (d @ [a]) w = Inr w1"
    and r: "os_Rename src (d @ [a, b]) w1 = Inr w'"
    by (auto simp: MoveV2Layers_def filepath_Dir_def butlast_append split: sum.splits)
  from os_Rename_frame [OF r assms(2) unrelated_ext [OF assms(3)]]
    os_MkdirAll_frame [OF m unrelated_ext [OF assms(3)]]
  show ?thesis by simp
qed

lemma WriteLayerMetadata_frame:
  assumes "WriteLayerMetadata f (d @ [a, b]) w = Inr w'" and "unrelated q d"
  shows "walk (fs w') q = walk (fs w) q"
proof -
  from assms(1) have "on_fs (writeFile (d @ [a, b @ ''.toml''])
      (LayerTOML \<lparr>Build = True, Launch = True, Cache = False\<rparr>)) w = Inr w'"
    by (simp add: WriteLayerMetadata_def encodeTOML_def path_plus_def butlast_append)
  from on_writeFile_frame [OF this unrelated_ext [OF assms(2)]] show ?thesis .
qed

lemma RenameEnvDir_frame:
  assumes "RenameEnvDir f dst w = Inr w'" and "unrelated q dst"
  shows "walk (fs w') q = walk (fs w) q"
proof (cases "os_Rename (dst @ [''env'']) (dst @ [''env.build'']) w")
  case (Inl e)
  with assms(1) show ?thesis
    by (auto simp: RenameEnvDir_def filepath_Join_def split: if_splits)
next
  case (Inr w1)
  with assms(1) have "w' = w1" by (simp add: RenameEnvDir_def filepath_Join_def)
  with os_Rename_frame [OF Inr unrelated_ext [OF assms(2)] unrelated_ext [OF assms(2)]]
  show ?thesis by simp
qed

lemma UpdateGroupTOML_frame:
  assumes "UpdateGroupTOML f bid w = Inr w'" and "unrelated q (GroupMetadata f)"
  shows "walk (fs w') q = walk (fs w) q"
proof -
  from assms(1) obtain c where "on_fs (writeFile (GroupMetadata f) c) w = Inr w'"
    by (auto simp: UpdateGroupTOML_def encodeTOML_def split: sum.splits option.splits)
  from on_writeFile_frame [OF this assms(2)] show ?thesis .
qed

lemma UpdateGroupTOML_group:
  assumes "UpdateGroupTOML f bid w = Inr w'"
    and "walk (fs w) (GroupMetadata f) = Inr (File (GroupTOML g))"
  shows "walk (fs w') (GroupMetadata f) =
     Inr (File (GroupTOML (g\<lparr>Buildpacks :=
        \<lparr>bp_ID = bid, bp_Name = [], bp_Version = []\<rparr> # Buildpacks g\<rparr>)))"
proof -
  from assms have "on_fs (writeFile (GroupMetadata f)
      (GroupTOML (g\<lparr>Buildpacks := \<lparr>bp_ID = bid, bp_Name = [], bp_Version = []\<rparr> # Buildpacks g\<rparr>)))
      w = Inr w'"
    by (simp add: UpdateGroupTOML_def encodeTOML_def ioutil_ReadFile_def)
  from on_writeFile_walk [OF this] show ?thesis .
qed

lemma AddFakeCNBBuildpack_frame:
  assumes "AddFakeCNBBuildpack f bid w = Inr w'" and "unrelated q (V3BuildpacksDir f)"
  shows "walk (fs w') q = walk (fs w) q"
proof -
  let ?bp = "V3BuildpacksDir f @ [bid, ''latest'']"
  from assms(1) obtain w1 w2 w3 w4 c where
    s1: "os_MkdirAll ?bp w = Inr w1"
    and s2: "on_fs (writeFile (?bp @ [''buildpack.toml'']) (Bytes [])) w1 = Inr w2"
    and s3: "on_fs (writeFile (?bp @ [''buildpack.toml'']) c) w2 = Inr w3"
    and s4: "os_MkdirAll (?bp @ [''bin'']) w3 = Inr w4"
    and s5: "on_fs (writeFile (?bp @ [''bin'', ''build'']) (Bytes ''#!/bin/bash'')) w4 = Inr w'"
    by (auto simp: AddFakeCNBBuildpack_def Let_def filepath_Join_def os_Create_def encodeTOML_def
        ioutil_WriteFile_def split: sum.splits)
  have u: "unrelated q (?bp @ x)" for x
    using unrelated_ext [OF assms(2), of "[bid, ''latest''] @ x"] by simp
  from os_MkdirAll_frame [OF s1] u [of "[]"] have "walk (fs w1) q = walk (fs w) q" by simp
  moreover from on_writeFile_frame [OF s2 u] have "walk (fs w2) q = walk (fs w1) q" .
  moreover from on_writeFile_frame [OF s3 u] have "walk (fs w3) q = walk (fs w2) q" .
  moreover from os_MkdirAll_frame [OF s4 u] have "walk (fs w4) q = walk (fs w3) q" .
  moreover from on_writeFile_frame [OF s5 u] have "walk (fs w') q = walk (fs w4) q" .
  ultimately show ?thesis by simp
qed

lemma visit_cases:
  assumes "visit f i w = Inr w'"
  obtains (skip) "walk (fs w) (V2DepsDir f @ [strconv_Itoa (int i)]) = Inl ENOENT" "w' = w"
  | (steps) w1 w2 w3 w4 where
      "walk (fs w) (V2DepsDir f @ [strconv_Itoa (int i)]) \<noteq> Inl ENOENT"
      "MoveV2Layers f (V2DepsDir f @ [strconv_Itoa (int i)])
         (V3LayersDir f @ [''buildpack.'' @ strconv_Itoa (int i), ''layer'']) w = Inr w1"
      "WriteLayerMetadata f (V3LayersDir f @ [''buildpack.'' @ strconv_Itoa (int i), ''layer'']) w1 = Inr w2"
      "RenameEnvDir f (V3LayersDir f @ [''buildpack.'' @ strconv_Itoa (int i), ''layer'']) w2 = Inr w3"
      "UpdateGroupTOML f (''buildpack.'' @ strconv_Itoa (int i)) w3 = Inr w4"
      "AddFakeCNBBuildpack f (''buildpack.'' @ strconv_Itoa (int i)) w4 = Inr w'"
proof (cases "walk (fs w) (V2DepsDir f @ [strconv_Itoa (int i)]) = Inl ENOENT")
  case True
  with assms have "w' = w"
    by (simp add: visit_def Let_def filepath_Join_def err_IsNotExist_def os_Stat_def)
  with True show ?thesis by (rule skip)
next
  case False
  then have n: "\<not> err_IsNotExist (os_Stat (V2DepsDir f @ [strconv_Itoa (int i)]) w)"
    by (auto simp: err_IsNotExist_def os_Stat_def split: sum.splits)
  with assms obtain w1 w2 w3 w4 where
    "MoveV2Layers f (V2DepsDir f @ [strconv_Itoa (int i)])
         (V3LayersDir f @ [''buildpack.'' @ strconv_Itoa (int i), ''layer'']) w = Inr w1"
    "WriteLayerMetadata f (V3LayersDir f @ [''buildpack.'' @ strconv_Itoa (int i), ''layer'']) w1 = Inr w2"
    "RenameEnvDir f (V3LayersDir f @ [''buildpack.'' @ strconv_Itoa (int i), ''layer'']) w2 = Inr w3"
    "UpdateGroupTOML f (''buildpack.'' @ strconv_Itoa (int i)) w3 = Inr w4"
    "AddFakeCNBBuildpack f (''buildpack.'' @ strconv_Itoa (int i)) w4 = Inr w'"
    by (auto simp: visit_def Let_def filepath_Join_def split: sum.splits)
  with False show ?thesis by (rule steps)
qed

lemma visit_frame:
  assumes v: "visit f i w = Inr w'"
    and u1: "unrelated q (V2DepsDir f @ [strconv_Itoa (int i)])"
    and u2: "unrelated q (V3LayersDir f)"
    and u3: "unrelated q (V3BuildpacksDir f)"
    and u4: "unrelated q (GroupMetadata f)"
  shows "walk (fs w') q = walk (fs w) q"
  using v
proof (cases rule: visit_cases)
  case skip
  then show ?thesis by simp
next
  case (steps w1 w2 w3 w4)
  from MoveV2Layers_frame [OF steps(2) u1 u2] have "walk (fs w1) q = walk (fs w) q" .
  moreover from WriteLayerMetadata_frame [OF steps(3) u2] have "walk (fs w2) q = walk (fs w1) q" .
  moreover from RenameEnvDir_frame [OF steps(4) unrelated_ext [OF u2]]
  have "walk (fs w3) q = walk (fs w2) q" .
  moreover from UpdateGroupTOML_frame [OF steps(5) u4] have "walk (fs w4) q = walk (fs w3) q" .
  moreover from AddFakeCNBBuildpack_frame [OF steps(6) u3] have "walk (fs w') q = walk (fs w4) q" .
  ultimately show ?thesis by simp
qed

lemma visit_group:
  assumes v: "visit f i w = Inr w'"
    and p: "walk (fs w) (V2DepsDir f @ [strconv_Itoa (int i)]) = Inr n"
    and g: "walk (fs w) (GroupMetadata f) = Inr (File (GroupTOML g))"
    and u1: "unrelated (GroupMetadata f) (V2DepsDir f)"
    and u2: "unrelated (GroupMetadata f) (V3LayersDir f)"
    and u3: "unrelated (GroupMetadata f) (V3BuildpacksDir f)"
  shows "walk (fs w') (GroupMetadata f) =
     Inr (File (GroupTOML (g\<lparr>Buildpacks := legacy_ref i # Buildpacks g\<rparr>)))"
  using v
proof (cases rule: visit_cases)
  case skip
  with p show ?thesis by simp
next
  case (steps w1 w2 w3 w4)
  let ?G = "GroupMetadata f"
  from MoveV2Layers_frame [OF steps(2) unrelated_ext [OF u1] u2]
  have "walk (fs w1) ?G = walk (fs w) ?G" .
  moreover from WriteLayerMetadata_frame [OF steps(3) u2] have "walk (fs w2) ?G = walk (fs w1) ?G" .
  moreover from RenameEnvDir_frame [OF steps(4) unrelated_ext [OF u2]]
  have "walk (fs w3) ?G = walk (fs w2) ?G" .
  ultimately have "walk (fs w3) ?G = Inr (File (GroupTOML g))" using g by simp
  from UpdateGroupTOML_group [OF steps(5) this]
  have "walk (fs w4) ?G = Inr (File (GroupTOML (g\<lparr>Buildpacks := legacy_ref i # Buildpacks g\<rparr>)))"
    by (simp add: legacy_ref_def)
  with AddFakeCNBBuildpack_frame [OF steps(6) u3] show ?thesis by simp
qed

lemma visit_all_group:
  assumes u1: "unrelated (GroupMetadata f) (V2DepsDir f)"
    and u2: "unrelated (GroupMetadata f) (V3LayersDir f)"
    and u3: "unrelated (GroupMetadata f) (V3BuildpacksDir f)"
    and u4: "unrelated (V2DepsDir f) (V3LayersDir f)"
    and u5: "unrelated (V2DepsDir f) (V3BuildpacksDir f)"
  shows "visit_all f (rev [0..<k]) w = Inr w' \<Longrightarrow>
     \<forall>i < k. \<exists>n. walk (fs w) (V2DepsDir f @ [strconv_Itoa (int i)]) = Inr n \<Longrightarrow>
     walk (fs w) (GroupMetadata f) = Inr (File (GroupTOML g)) \<Longrightarrow>
     walk (fs w') (GroupMetadata f) =
       Inr (File (GroupTOML (g\<lparr>Buildpacks := map legacy_ref [0..<k] @ Buildpacks g\<rparr>)))"
proof (induction k arbitrary: w g)
  case 0
  then show ?case by simp
next
  case (Suc k)
  from Suc.prems(1) obtain w1 where v: "visit f k w = Inr w1"
    and r: "visit_all f (rev [0..<k]) w1 = Inr w'"
    by (auto split: sum.splits)
  from Suc.prems(2) obtain n where n: "walk (fs w) (V2DepsDir f @ [strconv_Itoa (int k)]) = Inr n"
    by auto
  from visit_group [OF v n Suc.prems(3) u1 u2 u3]
  have g1: "walk (fs w1) (GroupMetadata f) =
      Inr (File (GroupTOML (g\<lparr>Buildpacks := legacy_ref k # Buildpacks g\<rparr>)))" .
  have p1: "\<forall>i < k. \<exists>n. walk (fs w1) (V2DepsDir f @ [strconv_Itoa (int i)]) = Inr n"
  proof (intro allI impI)
    fix i assume i: "i < k"
    let ?q = "V2DepsDir f @ [strconv_Itoa (int i)]"
    from i have "strconv_Itoa (int i) \<noteq> strconv_Itoa (int k)" using Itoa_inj by blast
    then have a: "unrelated ?q (V2DepsDir f @ [strconv_Itoa (int k)])" by (rule unrelated_sibling)
    have b: "unrelated ?q (V3LayersDir f)" using unrelated_append [OF u4, of "[strconv_Itoa (int i)]" "[]"] by simp
    have c: "unrelated ?q (V3BuildpacksDir f)" using unrelated_append [OF u5, of "[strconv_Itoa (int i)]" "[]"] by simp
    have d: "unrelated ?q (GroupMetadata f)"
      using unrelated_append [OF unrelated_sym [OF u1], of "[strconv_Itoa (int i)]" "[]"] by simp
    from visit_frame [OF v a b c d] Suc.prems(2) i
    show "\<exists>n. walk (fs w1) ?q = Inr n" by simp
  qed
  from Suc.IH [OF r p1 g1] show ?case by simp
qed

lemma IncludePrevious_unfold:
  assumes "strconv_Atoi (DepsIndex f) = Inr (int k)"
  shows "IncludePreviousV2Buildpacks f w =
     (case os_RemoveAll (filepath_Join (V2DepsDir f) [DepsIndex f]) w of
        Inl err \<Rightarrow> Inl err
      | Inr w' \<Rightarrow> visit_all f (rev [0..<k]) w')"
proof -
  from parse_digits_range [OF assms] have "wrap64 (int k - 1) = int k - 1"
    by (intro wrap64_id) auto
  with assms show ?thesis
    by (simp add: IncludePreviousV2Buildpacks_def include_loop_nat split: sum.splits)
qed

lemma Atoi_example: "strconv_Atoi (DepsIndex example_finalizer) = Inr (int 2)"
  by (simp add: strconv_Atoi_def example_finalizer_def digit_val_def Let_def)

lemma digits_small:
  "digits 0 = ''0''" "digits 1 = ''1''" "digits (Suc 0) = ''1''" "digits 2 = ''2''"
  by code_simp+

lemmas fs_ops = os_Stat_def os_Rename_def os_MkdirAll_def os_RemoveAll_def os_Create_def
  ioutil_WriteFile_def ioutil_ReadFile_def encodeTOML_def on_fs_def rename_def move_def
  removeAll_def writeFile_def filepath_Join_def filepath_Dir_def path_plus_def err_IsNotExist_def

lemma visit_example_1:
  "visit example_finalizer (Suc 0)
     (tmp_home_world [(''deps'', Dir [(''0'', Dir [(''env'', Dir [(''A'', File (Bytes ''a''))])]),
                                     (''1'', Dir [(''bin'', Dir [])])])]
        [(''metadata'', Dir metadata_entries)]) =
   Inr (tmp_home_world [(''deps'', Dir [(''0'', Dir [(''env'', Dir [(''A'', File (Bytes ''a''))])])])]
        [(''metadata'',
          Dir [(''group.toml'',
                File (GroupTOML \<lparr>Buildpacks =
                  [\<lparr>bp_ID = ''buildpack.1'', bp_Name = [], bp_Version = []\<rparr>,
                   \<lparr>bp_ID = ''lang-b'', bp_Name = [], bp_Version = []\<rparr>]\<rparr>)),
               (''plan.toml'', File (Bytes []))]),
         (''deps'', Dir [injected_layer ''buildpack.1'' [(''bin'', Dir [])]]),
         (''cnbs'', Dir [fake_cnb ''buildpack.1''])])"
  by (simp add: visit_def Let_def MoveV2Layers_def WriteLayerMetadata_def RenameEnvDir_def
      UpdateGroupTOML_def AddFakeCNBBuildpack_def fs_ops strconv_Itoa_def digits_small
      tmp_home_world_def example_finalizer_def metadata_entries_def lang_group_def
      injected_layer_def fake_cnb_def)

lemma visit_example_0:
  "visit example_finalizer 0
     (tmp_home_world [(''deps'', Dir [(''0'', Dir [(''env'', Dir [(''A'', File (Bytes ''a''))])])])]
        [(''metadata'',
          Dir [(''group.toml'',
                File (GroupTOML \<lparr>Buildpacks =
                  [\<lparr>bp_ID = ''buildpack.1'', bp_Name = [], bp_Version = []\<rparr>,
                   \<lparr>bp_ID = ''lang-b'', bp_Name = [], bp_Version = []\<rparr>]\<rparr>)),
               (''plan.toml'', File (Bytes []))]),
         (''deps'', Dir [injected_layer ''buildpack.1'' [(''bin'', Dir [])]]),
         (''cnbs'', Dir [fake_cnb ''buildpack.1''])]) =
   Inr included_world"
  by (simp add: visit_def Let_def MoveV2Layers_def WriteLayerMetadata_def RenameEnvDir_def
      UpdateGroupTOML_def AddFakeCNBBuildpack_def fs_ops strconv_Itoa_def digits_small
      tmp_home_world_def example_finalizer_def included_world_def
      injected_layer_def fake_cnb_def)

lemma remove_example:
  "os_RemoveAll (filepath_Join (V2DepsDir example_finalizer) [DepsIndex example_finalizer])
     include_world =
   Inr (tmp_home_world [(''deps'', Dir [(''0'', Dir [(''env'', Dir [(''A'', File (Bytes ''a''))])]),
                                        (''1'', Dir [(''bin'', Dir [])])])]
        [(''metadata'', Dir metadata_entries)])"
  by (simp add: fs_ops include_world_def legacy_deps_def tmp_home_world_def example_finalizer_def)

lemma rev_upt_2: "rev [0..<2] = [Suc 0, 0]"
  by (simp add: numeral_2_eq_2)

lemma include_example:
  "IncludePreviousV2Buildpacks example_finalizer include_world = Inr included_world"
  by (simp add: IncludePrevious_unfold [OF Atoi_example] remove_example rev_upt_2
      visit_example_1 visit_example_0)

section \<open>Facts about the layer migrator\<close>

lemma clean_id: "[] \<notin> set p \<Longrightarrow> clean p = p"
  by (induction p) (auto simp: clean_def)

lemma CopyDirectory_effect:
  assumes "CopyDirectory src dst w = Inr w'" and "[] \<notin> set src" and "[] \<notin> set dst"
  shows "\<exists>es. walk (fs w) src = Inr (Dir es) \<and> walk (fs w') dst = Inr (Dir es) \<and>
           (\<forall>q. unrelated q dst \<longrightarrow> walk (fs w') q = walk (fs w) q)"
proof -
  from assms have c: "copyDirectory src dst (fs w) = Inr (fs w')"
    by (auto simp: CopyDirectory_def clean_id dest!: on_fs_Inr)
  then obtain es where s: "walk (fs w) src = Inr (Dir es)"
    and p: "put dst (Dir es) (fs w) = Inr (fs w')"
    by (auto simp: copyDirectory_def split: sum.splits node.splits)
  from walk_put_same [OF p, of "[]"] have "walk (fs w') dst = Inr (Dir es)" by simp
  moreover have "walk (fs w') q = walk (fs w) q" if "unrelated q dst" for q
    using walk_put_other [OF p, of q] that by (simp add: unrelated_def)
  ultimately show ?thesis using s by blast
qed

lemma CopyFile_effect:
  assumes "CopyFile src dst w = Inr w'"
  shows "\<exists>c. walk (fs w) src = Inr (File c) \<and> walk (fs w') dst = Inr (File c) \<and>
           (\<forall>q. unrelated q dst \<longrightarrow> walk (fs w') q = walk (fs w) q)"
proof -
  from assms obtain c where r: "walk (fs w) src = Inr (File c)"
    and wr: "on_fs (writeFile dst c) w = Inr w'"
    by (auto simp: CopyFile_def ioutil_ReadFile_def split: sum.splits node.splits)
  from on_writeFile_walk [OF wr] on_writeFile_frame [OF wr] r show ?thesis by blast
qed

lemma cacheLayer_effect:
  assumes ok: "cacheLayer f (lp @ [l]) bp l w = Inr w'"
    and inv: "walk (fs w) lp = Inr (Dir es)"
    and l: "l \<noteq> []" and bp: "bp \<noteq> []"
    and c1: "[] \<notin> set lp" and c2: "[] \<notin> set (V2CacheDir f)"
    and u: "unrelated lp (V2CacheDir f)"
  shows "\<exists>ds c. map_of es l = Some (Dir ds) \<and> map_of es (l @ ''.toml'') = Some (File c) \<and>
           walk (fs w') (V2CacheDir f @ [''cnb'', bp, l]) = Inr (Dir ds) \<and>
           walk (fs w') (V2CacheDir f @ [''cnb'', bp, l @ ''.toml'']) = Inr (File c) \<and>
           (\<forall>q. unrelated q (V2CacheDir f @ [''cnb'', bp, l]) \<and>
                unrelated q (V2CacheDir f @ [''cnb'', bp, l @ ''.toml'']) \<longrightarrow>
                walk (fs w') q = walk (fs w) q)"
proof -
  let ?cd = "V2CacheDir f @ [''cnb'', bp, l]"
  let ?ct = "V2CacheDir f @ [''cnb'', bp, l @ ''.toml'']"
  from ok obtain w1 w2 where
    s1: "os_MkdirAll ?cd w = Inr w1"
    and s2: "CopyFile (lp @ [l @ ''.toml'']) ?ct w1 = Inr w2"
    and s3: "CopyDirectory (lp @ [l]) ?cd w2 = Inr w'"
    by (auto simp: cacheLayer_def Let_def filepath_Join_def path_plus_def butlast_append
        split: sum.splits)
  have ulp: "unrelated (lp @ x) (V2CacheDir f @ y)" for x y using u by (rule unrelated_append)
  from CopyFile_effect [OF s2] obtain c where
    f1: "walk (fs w1) (lp @ [l @ ''.toml'']) = Inr (File c)"
    and f2: "walk (fs w2) ?ct = Inr (File c)"
    and f3: "\<And>q. unrelated q ?ct \<Longrightarrow> walk (fs w2) q = walk (fs w1) q" by blast
  have "[] \<notin> set (lp @ [l])" "[] \<notin> set ?cd" using l bp c1 c2 by auto
  from CopyDirectory_effect [OF s3 this] obtain ds where
    d1: "walk (fs w2) (lp @ [l]) = Inr (Dir ds)"
    and d2: "walk (fs w') ?cd = Inr (Dir ds)"
    and d3: "\<And>q. unrelated q ?cd \<Longrightarrow> walk (fs w') q = walk (fs w2) q" by blast
  have m: "walk (fs w1) q = walk (fs w) q" if "unrelated q ?cd" for q
    using os_MkdirAll_frame [OF s1 that] .
  have e1: "walk (fs w) (lp @ [l @ ''.toml'']) = Inr (File c)"
    using f1 m [OF ulp [of "[l @ ''.toml'']" "[''cnb'', bp, l]"]] by simp
  have e2: "walk (fs w) (lp @ [l]) = Inr (Dir ds)"
    using d1 f3 [OF ulp [of "[l]" "[''cnb'', bp, l @ ''.toml'']"]]
      m [OF ulp [of "[l]" "[''cnb'', bp, l]"]] by simp
  have sib: "unrelated ?ct ?cd"
    using unrelated_sibling [of "l @ ''.toml''" l "V2CacheDir f @ [''cnb'', bp]"] by simp
  have e3: "walk (fs w') ?ct = Inr (File c)" using d3 [OF sib] f2 by simp
  have e4: "walk (fs w') q = walk (fs w) q" if "unrelated q ?cd" "unrelated q ?ct" for q
    using d3 [OF that(1)] f3 [OF that(2)] m [OF that(1)] by simp
  from e1 e2 inv have "map_of es l = Some (Dir ds)" "map_of es (l @ ''.toml'') = Some (File c)"
    by (auto simp: walk_child split: option.splits)
  with d2 e3 e4 show ?thesis by blast
qed

lemma unrelated_sibling3: "a \<noteq> b \<Longrightarrow> unrelated (p @ [x, y, a]) (p @ [x, y, b])"
  by (simp add: unrelated_def)

lemma drop_toml_name: "drop_toml (lp @ [l @ ''.toml'']) = lp @ [l]"
  by (simp add: drop_toml_def butlast_append)

lemma filepath_Base_name: "l \<noteq> [] \<Longrightarrow> filepath_Base (lp @ [l]) = l"
  by (simp add: filepath_Base_def clean_def)

lemma ReadLayerMetadata_flag:
  assumes "ReadLayerMetadata f (lp @ [l @ ''.toml'']) w = Inr md"
    and "walk (fs w) lp = Inr (Dir es)"
  shows "cache_flagged es l = Cache md"
proof -
  from assms(1) obtain c where "walk (fs w) (lp @ [l @ ''.toml'']) = Inr (File c)"
    and d: "decode_LayerMetadata c = Some md"
    by (auto simp: ReadLayerMetadata_def ioutil_ReadFile_def split: sum.splits node.splits option.splits)
  with assms(2) have "map_of es (l @ ''.toml'') = Some (File c)"
    by (auto simp: walk_child split: option.splits)
  with d show ?thesis by (simp add: cache_flagged_def)
qed

lemma cache_loop_effect:
  assumes bp: "bp \<noteq> []" and c1: "[] \<notin> set lp" and c2: "[] \<notin> set (V2CacheDir f)"
    and u: "unrelated lp (V2CacheDir f)"
  shows "distinct ls \<Longrightarrow> [] \<notin> set ls \<Longrightarrow> walk (fs w0) lp = Inr (Dir es) \<Longrightarrow>
     cache_loop f bp (map (\<lambda>l. lp @ [l @ ''.toml'']) ls) w0 = Inr w1 \<Longrightarrow>
     (\<forall>l \<in> set ls. cache_flagged es l \<longrightarrow>
        (\<exists>ds c. map_of es l = Some (Dir ds) \<and> map_of es (l @ ''.toml'') = Some (File c) \<and>
           walk (fs w1) (V2CacheDir f @ [''cnb'', bp, l]) = Inr (Dir ds) \<and>
           walk (fs w1) (V2CacheDir f @ [''cnb'', bp, l @ ''.toml'']) = Inr (File c))) \<and>
     (\<forall>q. (\<forall>l \<in> set ls. cache_flagged es l \<longrightarrow>
              unrelated q (V2CacheDir f @ [''cnb'', bp, l]) \<and>
              unrelated q (V2CacheDir f @ [''cnb'', bp, l @ ''.toml''])) \<longrightarrow>
          walk (fs w1) q = walk (fs w0) q)"
proof (induction ls arbitrary: w0)
  case Nil
  then show ?case by simp
next
  case (Cons l ls)
  let ?C = "V2CacheDir f @ [''cnb'', bp]"
  from Cons.prems(1,2) have dl: "distinct ls" "l \<notin> set ls" and nl: "[] \<notin> set ls" "l \<noteq> []"
    by auto
  from Cons.prems(4) obtain md where rd: "ReadLayerMetadata f (lp @ [l @ ''.toml'']) w0 = Inr md"
    by (auto split: sum.splits)
  from ReadLayerMetadata_flag [OF rd Cons.prems(3)] have fl: "cache_flagged es l = Cache md" .
  show ?case
  proof (cases "Cache md")
    case False
    with rd Cons.prems(4) have r: "cache_loop f bp (map (\<lambda>l. lp @ [l @ ''.toml'']) ls) w0 = Inr w1"
      by simp
    from Cons.IH [OF dl(1) nl(1) Cons.prems(3) r] False fl show ?thesis by simp
  next
    case True
    with rd Cons.prems(4) nl(2) obtain wa where
      cl: "cacheLayer f (lp @ [l]) bp l w0 = Inr wa"
      and r: "cache_loop f bp (map (\<lambda>l. lp @ [l @ ''.toml'']) ls) wa = Inr w1"
      by (auto simp: drop_toml_name filepath_Base_name Let_def split: sum.splits)
    from cacheLayer_effect [OF cl Cons.prems(3) nl(2) bp c1 c2 u] obtain ds c where
      e1: "map_of es l = Some (Dir ds)" and e2: "map_of es (l @ ''.toml'') = Some (File c)"
      and e3: "walk (fs wa) (?C @ [l]) = Inr (Dir ds)"
      and e4: "walk (fs wa) (?C @ [l @ ''.toml'']) = Inr (File c)"
      and e5: "\<And>q. unrelated q (?C @ [l]) \<Longrightarrow> unrelated q (?C @ [l @ ''.toml'']) \<Longrightarrow>
                 walk (fs wa) q = walk (fs w0) q"
      by auto
    have ulp: "unrelated lp (?C @ x)" for x
      using unrelated_append [OF u, of "[]" "[''cnb'', bp] @ x"] by simp
    from e5 [OF ulp ulp] Cons.prems(3) have inv: "walk (fs wa) lp = Inr (Dir es)" by simp
    note IH = Cons.IH [OF dl(1) nl(1) inv r]
    from IH have ih1: "\<forall>l' \<in> set ls. cache_flagged es l' \<longrightarrow>
        (\<exists>ds c. map_of es l' = Some (Dir ds) \<and> map_of es (l' @ ''.toml'') = Some (File c) \<and>
           walk (fs w1) (?C @ [l']) = Inr (Dir ds) \<and>
           walk (fs w1) (?C @ [l' @ ''.toml'']) = Inr (File c))" by simp
    from IH have ih2: "\<And>q. (\<forall>l' \<in> set ls. cache_flagged es l' \<longrightarrow>
              unrelated q (?C @ [l']) \<and> unrelated q (?C @ [l' @ ''.toml''])) \<Longrightarrow>
          walk (fs w1) q = walk (fs wa) q" by simp
    have k1: "walk (fs w1) (?C @ [l]) = Inr (Dir ds)"
    proof -
      have "\<forall>l' \<in> set ls. cache_flagged es l' \<longrightarrow>
          unrelated (?C @ [l]) (?C @ [l']) \<and> unrelated (?C @ [l]) (?C @ [l' @ ''.toml''])"
      proof (intro ballI impI)
        fix l' assume m: "l' \<in> set ls" and f: "cache_flagged es l'"
        from m dl(2) have a: "l \<noteq> l'" by auto
        from f have "\<exists>c. map_of es (l' @ ''.toml'') = Some (File c)"
          by (auto simp: cache_flagged_def split: option.splits node.splits)
        with e1 have b: "l \<noteq> l' @ ''.toml''" by auto
        from a b show "unrelated (?C @ [l]) (?C @ [l']) \<and> unrelated (?C @ [l]) (?C @ [l' @ ''.toml''])"
          by (simp add: unrelated_sibling3)
      qed
      from ih2 [OF this] e3 show ?thesis by simp
    qed
    have k2: "walk (fs w1) (?C @ [l @ ''.toml'']) = Inr (File c)"
    proof -
      have "\<forall>l' \<in> set ls. cache_flagged es l' \<longrightarrow>
          unrelated (?C @ [l @ ''.toml'']) (?C @ [l']) \<and>
          unrelated (?C @ [l @ ''.toml'']) (?C @ [l' @ ''.toml''])"
      proof (intro ballI impI)
        fix l' assume m: "l' \<in> set ls" and f: "cache_flagged es l'"
        from m dl(2) have a: "l @ ''.toml'' \<noteq> l' @ ''.toml''" by auto
        from ih1 m f have "\<exists>ds. map_of es l' = Some (Dir ds)" by blast
        with e2 have b: "l @ ''.toml'' \<noteq> l'" by auto
        from a b show "unrelated (?C @ [l @ ''.toml'']) (?C @ [l']) \<and>
          unrelated (?C @ [l @ ''.toml'']) (?C @ [l' @ ''.toml''])"
          by (simp add: unrelated_sibling3)
      qed
      from ih2 [OF this] e4 show ?thesis by simp
    qed
    have p1: "\<forall>x \<in> set (l # ls). cache_flagged es x \<longrightarrow>
        (\<exists>ds c. map_of es x = Some (Dir ds) \<and> map_of es (x @ ''.toml'') = Some (File c) \<and>
           walk (fs w1) (?C @ [x]) = Inr (Dir ds) \<and>
           walk (fs w1) (?C @ [x @ ''.toml'']) = Inr (File c))"
      using ih1 e1 e2 k1 k2 by simp
    have p2: "walk (fs w1) q = walk (fs w0) q"
      if h: "\<forall>x \<in> set (l # ls). cache_flagged es x \<longrightarrow>
              unrelated q (?C @ [x]) \<and> unrelated q (?C @ [x @ ''.toml''])" for q
    proof -
      from h fl True have a: "unrelated q (?C @ [l])" "unrelated q (?C @ [l @ ''.toml''])" by auto
      from h have "\<forall>l' \<in> set ls. cache_flagged es l' \<longrightarrow>
              unrelated q (?C @ [l']) \<and> unrelated q (?C @ [l' @ ''.toml''])" by simp
      from ih2 [OF this] e5 [OF a] show ?thesis by simp
    qed
    from p1 p2 show ?thesis by simp
  qed
qed

lemma strip5_suffix: "suffix ''.toml'' n \<Longrightarrow> strip5 n @ ''.toml'' = n"
  by (auto simp: strip5_def suffix_def)

lemma glob_toml:
  assumes "walk r lp = Inr (Dir es)"
  shows "glob (star_suffix ''.toml'') r lp =
     map (\<lambda>l. lp @ [l @ ''.toml''])
       (map strip5 (filter (suffix ''.toml'') (sort (remdups (map fst es)))))"
proof -
  have s: "star_suffix ''.toml'' = suffix ''.toml''"
    by (rule ext) (simp add: star_suffix_def)
  have "map (\<lambda>n. lp @ [n]) ns = map (\<lambda>n. lp @ [strip5 n @ ''.toml'']) ns"
    if "\<forall>n \<in> set ns. suffix ''.toml'' n" for ns
    using that by (induction ns) (simp_all add: strip5_suffix)
  from this [of "filter (suffix ''.toml'') (sort (remdups (map fst es)))"] assms
  show ?thesis by (simp add: glob_def s comp_def)
qed

lemma toml_layers:
  assumes "map_of es ''.toml'' = None"
  defines "ls \<equiv> map strip5 (filter (suffix ''.toml'') (sort (remdups (map fst es))))"
  shows "distinct ls" and "[] \<notin> set ls"
    and "map_of es (l @ ''.toml'') = Some n \<Longrightarrow> l \<in> set ls"
proof -
  let ?ns = "filter (suffix ''.toml'') (sort (remdups (map fst es)))"
  have "inj_on strip5 (set ?ns)"
  proof (rule inj_onI)
    fix a b assume a: "a \<in> set ?ns" and b: "b \<in> set ?ns" and e: "strip5 a = strip5 b"
    from a have "suffix ''.toml'' a" by simp
    then have A: "strip5 a @ ''.toml'' = a" by (rule strip5_suffix)
    from b have "suffix ''.toml'' b" by simp
    then have B: "strip5 b @ ''.toml'' = b" by (rule strip5_suffix)
    from A B e show "a = b" by metis
  qed
  then show "distinct ls" by (simp add: ls_def distinct_map)
  show "[] \<notin> set ls"
  proof
    assume "[] \<in> set ls"
    then have "[] \<in> strip5 ` set ?ns" by (simp add: ls_def)
    then obtain n where n0: "[] = strip5 n" and n1: "n \<in> set ?ns" by (rule imageE)
    from n0 n1 have n: "n \<in> set ?ns" "strip5 n = []" by simp_all
    from n(1) have "suffix ''.toml'' n" by simp
    then have "strip5 n @ ''.toml'' = n" by (rule strip5_suffix)
    with n(2) have "n = ''.toml''" by simp
    with n(1) have "''.toml'' \<in> fst ` set es" by auto
    with assms(1) show False by (simp add: map_of_eq_None_iff)
  qed
  show "l \<in> set ls" if "map_of es (l @ ''.toml'') = Some n"
  proof -
    from that have "l @ ''.toml'' \<in> fst ` set es" by (auto dest!: map_of_SomeD intro: rev_image_eqI)
    then have "l @ ''.toml'' \<in> set ?ns" by (simp add: suffix_def)
    moreover have "strip5 (l @ ''.toml'') = l" by (simp add: strip5_def)
    ultimately have "l \<in> strip5 ` set ?ns" by (intro image_eqI [where x = "l @ ''.toml''"]) simp_all
    then show ?thesis by (simp add: ls_def)
  qed
qed

lemma unrelated_below: "a \<noteq> b \<Longrightarrow> unrelated (p @ a # x) (p @ b # y)"
  by (simp add: unrelated_def)

lemma CopyDirectory_frame:
  assumes "CopyDirectory src dst w = Inr w'" and "unrelated q (clean dst)"
  shows "walk (fs w') q = walk (fs w) q"
proof -
  from assms(1) have "copyDirectory (clean src) (clean dst) (fs w) = Inr (fs w')"
    by (auto simp: CopyDirectory_def dest!: on_fs_Inr)
  then obtain es where "put (clean dst) (Dir es) (fs w) = Inr (fs w')"
    by (auto simp: copyDirectory_def split: sum.splits node.splits)
  from walk_put_other [OF this, of q] assms(2) show ?thesis by (simp add: unrelated_def)
qed

lemma CopyFile_frame:
  "CopyFile src dst w = Inr w' \<Longrightarrow> unrelated q dst \<Longrightarrow> walk (fs w') q = walk (fs w) q"
  using CopyFile_effect [of src dst w w'] by blast

lemma cacheLayer_frame:
  assumes ok: "cacheLayer f v3Path bp ln w = Inr w'"
    and c: "[] \<notin> set (V2CacheDir f)" and bp: "bp \<noteq> []"
    and u: "unrelated q (V2CacheDir f @ [''cnb'', bp])"
  shows "walk (fs w') q = walk (fs w) q"
proof -
  let ?B = "V2CacheDir f @ [''cnb'', bp]"
  from ok obtain w1 w2 where s1: "os_MkdirAll (?B @ [ln]) w = Inr w1"
    and s2: "CopyFile (butlast v3Path @ [last v3Path @ ''.toml'']) (?B @ [ln @ ''.toml'']) w1 = Inr w2"
    and s3: "CopyDirectory v3Path (?B @ [ln]) w2 = Inr w'"
    by (auto simp: cacheLayer_def Let_def filepath_Join_def path_plus_def butlast_append
        split: sum.splits)
  have cl: "clean (?B @ [ln]) = ?B @ filter (\<lambda>c. c \<noteq> []) [ln]"
    using clean_id [OF c] bp by (simp add: clean_def)
  from u have e: "unrelated q (?B @ z)" for z by (rule unrelated_ext)
  from e [of "filter (\<lambda>c. c \<noteq> []) [ln]"] cl have "unrelated q (clean (?B @ [ln]))" by simp
  from CopyDirectory_frame [OF s3 this] CopyFile_frame [OF s2 e] os_MkdirAll_frame [OF s1 e]
  show ?thesis by simp
qed

lemma cache_loop_frame:
  assumes c: "[] \<notin> set (V2CacheDir f)" and bp: "bp \<noteq> []"
    and u: "unrelated q (V2CacheDir f @ [''cnb'', bp])"
  shows "cache_loop f bp tomls w = Inr w' \<Longrightarrow> walk (fs w') q = walk (fs w) q"
proof (induction tomls arbitrary: w)
  case Nil
  then show ?case by simp
next
  case (Cons t ts)
  from Cons.prems obtain md where rd: "ReadLayerMetadata f t w = Inr md"
    by (auto split: sum.splits)
  show ?case
  proof (cases "Cache md")
    case False
    with rd Cons.prems have "cache_loop f bp ts w = Inr w'" by simp
    from Cons.IH [OF this] show ?thesis .
  next
    case True
    with rd Cons.prems obtain wa where
      cl: "cacheLayer f (drop_toml t) bp (filepath_Base (drop_toml t)) w = Inr wa"
      and r: "cache_loop f bp ts wa = Inr w'"
      by (auto simp: Let_def split: sum.splits)
    from Cons.IH [OF r] cacheLayer_frame [OF cl c bp u] show ?thesis by simp
  qed
qed

lemma moveV3Layer_frame:
  assumes ok: "moveV3Layer f lp w = Inr w'"
    and c: "[] \<notin> set (V2CacheDir f)" "[] \<notin> set (V2DepsDir f)"
    and bp: "filepath_Base lp \<noteq> []"
    and u: "unrelated q (V2CacheDir f @ [''cnb'', filepath_Base lp])"
      "unrelated q (V2DepsDir f @ [filepath_Base lp])"
  shows "walk (fs w') q = walk (fs w) q"
proof -
  let ?bp = "filepath_Base lp"
  let ?D = "V2DepsDir f @ [?bp]"
  from ok obtain w1 w2 where
    s1: "cache_loop f ?bp (glob (star_suffix ''.toml'') (fs w) lp) w = Inr w1"
    and s2: "os_MkdirAll ?D w1 = Inr w2"
    and s3: "CopyDirectory lp ?D w2 = Inr w'"
    by (auto simp: moveV3Layer_def Let_def filepath_Join_def split: sum.splits)
  from c(2) bp have "clean ?D = ?D" by (simp add: clean_id)
  with u(2) have "unrelated q (clean ?D)" by simp
  from CopyDirectory_frame [OF s3 this] os_MkdirAll_frame [OF s2 u(2)]
    cache_loop_frame [OF c(1) bp u(1) s1]
  show ?thesis by simp
qed

lemma moveV3Config_frame:
  assumes ok: "moveV3Config f w = Inr w'"
    and u: "unrelated q (V3LayersDir f @ [''config''])" "unrelated q (V2DepsDir f @ [''config''])"
      "unrelated q (V2AppDir f @ [''.cloudfoundry''])"
  shows "walk (fs w') q = walk (fs w) q"
proof -
  from ok obtain w1 w2 where
    s1: "os_Rename (V3LayersDir f @ [''config'']) (V2DepsDir f @ [''config'']) w = Inr w1"
    and s2: "os_MkdirAll (V2AppDir f @ [''.cloudfoundry'']) w1 = Inr w2"
    and s3: "CopyFile (V2DepsDir f @ [''config'', ''metadata.toml''])
               (V2AppDir f @ [''.cloudfoundry'', ''metadata.toml'']) w2 = Inr w'"
    by (auto simp: moveV3Config_def filepath_Join_def split: sum.splits)
  from unrelated_ext [OF u(3), of "[''metadata.toml'']"]
  have "unrelated q (V2AppDir f @ [''.cloudfoundry'', ''metadata.toml''])" by simp
  from CopyFile_frame [OF s3 this] os_MkdirAll_frame [OF s2 u(3)] os_Rename_frame [OF s1 u(1,2)]
  show ?thesis by simp
qed

lemma layers_loop_append:
  "layers_loop f (xs @ ys) w =
     (case layers_loop f xs w of Inl err \<Rightarrow> Inl err | Inr w1 \<Rightarrow> layers_loop f ys w1)"
  by (induction xs arbitrary: w) (auto simp: Let_def split: sum.splits)

lemma layers_loop_frame:
  assumes c: "[] \<notin> set (V2CacheDir f)" "[] \<notin> set (V2DepsDir f)"
  shows "layers_loop f (map (\<lambda>n. L @ [n]) ns) w = Inr w' \<Longrightarrow> [] \<notin> set ns \<Longrightarrow>
     (\<forall>n \<in> set ns. n \<noteq> ''config'' \<longrightarrow>
        unrelated q (V2CacheDir f @ [''cnb'', n]) \<and> unrelated q (V2DepsDir f @ [n])) \<Longrightarrow>
     (''config'' \<in> set ns \<longrightarrow>
        unrelated q (V3LayersDir f @ [''config'']) \<and> unrelated q (V2DepsDir f @ [''config'']) \<and>
        unrelated q (V2AppDir f @ [''.cloudfoundry''])) \<Longrightarrow>
     walk (fs w') q = walk (fs w) q"
proof (induction ns arbitrary: w)
  case Nil
  then show ?case by simp
next
  case (Cons n ns)
  from Cons.prems(2) have n: "n \<noteq> []" and ns: "[] \<notin> set ns" by auto
  from n have base: "filepath_Base (L @ [n]) = n" by (rule filepath_Base_name)
  from Cons.prems(3) have r3: "\<forall>n \<in> set ns. n \<noteq> ''config'' \<longrightarrow>
        unrelated q (V2CacheDir f @ [''cnb'', n]) \<and> unrelated q (V2DepsDir f @ [n])" by simp
  from Cons.prems(4) have r4: "''config'' \<in> set ns \<longrightarrow>
        unrelated q (V3LayersDir f @ [''config'']) \<and> unrelated q (V2DepsDir f @ [''config'']) \<and>
        unrelated q (V2AppDir f @ [''.cloudfoundry''])" by simp
  show ?case
  proof (cases "n = ''config''")
    case True
    with Cons.prems(1) base obtain w1 where m: "moveV3Config f w = Inr w1"
      and r: "layers_loop f (map (\<lambda>n. L @ [n]) ns) w1 = Inr w'"
      by (auto simp: Let_def split: sum.splits)
    from Cons.prems(4) True have
      "unrelated q (V3LayersDir f @ [''config''])" "unrelated q (V2DepsDir f @ [''config''])"
      "unrelated q (V2AppDir f @ [''.cloudfoundry''])" by simp_all
    from moveV3Config_frame [OF m this] Cons.IH [OF r ns r3 r4] show ?thesis by simp
  next
    case False
    with Cons.prems(1) base obtain w1 where m: "moveV3Layer f (L @ [n]) w = Inr w1"
      and r: "layers_loop f (map (\<lambda>n. L @ [n]) ns) w1 = Inr w'"
      by (auto simp: Let_def split: sum.splits)
    from Cons.prems(3) False have
      "unrelated q (V2CacheDir f @ [''cnb'', n])" "unrelated q (V2DepsDir f @ [n])" by simp_all
    with base n have "filepath_Base (L @ [n]) \<noteq> []"
      "unrelated q (V2CacheDir f @ [''cnb'', filepath_Base (L @ [n])])"
      "unrelated q (V2DepsDir f @ [filepath_Base (L @ [n])])" by simp_all
    from moveV3Layer_frame [OF m c this] Cons.IH [OF r ns r3 r4] show ?thesis by simp
  qed
qed

lemma cache_loop_reads:
  assumes bp: "bp \<noteq> []" and c1: "[] \<notin> set lp" and c2: "[] \<notin> set (V2CacheDir f)"
    and u: "unrelated lp (V2CacheDir f)"
  shows "[] \<notin> set ls \<Longrightarrow> walk (fs w0) lp = Inr (Dir es) \<Longrightarrow>
     cache_loop f bp (map (\<lambda>l. lp @ [l @ ''.toml'']) ls) w0 = Inr w1 \<Longrightarrow>
     \<forall>l \<in> set ls. \<exists>c. map_of es (l @ ''.toml'') = Some (File c)"
proof (induction ls arbitrary: w0)
  case Nil
  then show ?case by simp
next
  case (Cons l ls)
  from Cons.prems(1) have nl: "[] \<notin> set ls" "l \<noteq> []" by auto
  from Cons.prems(3) obtain md where rd: "ReadLayerMetadata f (lp @ [l @ ''.toml'']) w0 = Inr md"
    by (auto split: sum.splits)
  then obtain c where "walk (fs w0) (lp @ [l @ ''.toml'']) = Inr (File c)"
    by (auto simp: ReadLayerMetadata_def ioutil_ReadFile_def
        split: sum.splits node.splits option.splits)
  with Cons.prems(2) have hd: "map_of es (l @ ''.toml'') = Some (File c)"
    by (auto simp: walk_child split: option.splits)
  have "\<forall>l \<in> set ls. \<exists>c. map_of es (l @ ''.toml'') = Some (File c)"
  proof (cases "Cache md")
    case False
    with rd Cons.prems(3) have "cache_loop f bp (map (\<lambda>l. lp @ [l @ ''.toml'']) ls) w0 = Inr w1"
      by simp
    from Cons.IH [OF nl(1) Cons.prems(2) this] show ?thesis .
  next
    case True
    with rd Cons.prems(3) nl(2) obtain wa where
      cl: "cacheLayer f (lp @ [l]) bp l w0 = Inr wa"
      and r: "cache_loop f bp (map (\<lambda>l. lp @ [l @ ''.toml'']) ls) wa = Inr w1"
      by (auto simp: drop_toml_name filepath_Base_name Let_def split: sum.splits)
    from unrelated_ext [OF u, of "[''cnb'', bp]"]
    have "unrelated lp (V2CacheDir f @ [''cnb'', bp])" .
    from cacheLayer_frame [OF cl c2 bp this] Cons.prems(2)
    have "walk (fs wa) lp = Inr (Dir es)" by simp
    from Cons.IH [OF nl(1) this r] show ?thesis .
  qed
  with hd show ?case by simp
qed

lemma moveV3Layer_effect:
  assumes dir: "walk (fs w) layersPath = Inr (Dir es)"
    and nm: "layersPath \<noteq> []" "[] \<notin> set layersPath" "[] \<notin> set (V2CacheDir f)"
      "[] \<notin> set (V2DepsDir f)"
    and sc: "map_of es ''.toml'' = None"
    and u1: "unrelated layersPath (V2CacheDir f)"
    and u2: "unrelated layersPath (V2DepsDir f)"
    and u3: "unrelated (V2CacheDir f) (V2DepsDir f)"
    and ok: "moveV3Layer f layersPath w = Inr w'"
  shows
    "\<forall>l. cache_flagged es l \<longrightarrow>
        (\<exists>ds c. map_of es l = Some (Dir ds) \<and> map_of es (l @ ''.toml'') = Some (File c) \<and>
           walk (fs w') (V2CacheDir f @ [''cnb'', last layersPath, l]) = Inr (Dir ds) \<and>
           walk (fs w') (V2CacheDir f @ [''cnb'', last layersPath, l @ ''.toml'']) = Inr (File c))"
    "\<forall>l ds. map_of es l = Some (Dir ds) \<and> \<not> cache_flagged es l \<longrightarrow>
        walk (fs w') (V2CacheDir f @ [''cnb'', last layersPath, l]) =
          walk (fs w) (V2CacheDir f @ [''cnb'', last layersPath, l]) \<and>
        walk (fs w') (V2CacheDir f @ [''cnb'', last layersPath, l @ ''.toml'']) =
          walk (fs w) (V2CacheDir f @ [''cnb'', last layersPath, l @ ''.toml''])"
    "walk (fs w') (V2DepsDir f @ [last layersPath]) = Inr (Dir es)"
    "walk (fs w') layersPath = Inr (Dir es)"
proof -
  let ?bp = "last layersPath"
  let ?C = "V2CacheDir f @ [''cnb'', ?bp]"
  let ?D = "V2DepsDir f @ [?bp]"
  let ?ls = "map strip5 (filter (suffix ''.toml'') (sort (remdups (map fst es))))"
  from nm(1,2) have bp: "?bp \<noteq> []" by (metis last_in_set)
  from nm(2) have base: "filepath_Base layersPath = ?bp" by (simp add: filepath_Base_def clean_id)
  from ok obtain w1 w2 where
    s1: "cache_loop f ?bp (map (\<lambda>l. layersPath @ [l @ ''.toml'']) ?ls) w = Inr w1"
    and s2: "os_MkdirAll ?D w1 = Inr w2"
    and s3: "CopyDirectory layersPath ?D w2 = Inr w'"
    by (auto simp: moveV3Layer_def Let_def base glob_toml [OF dir] filepath_Join_def
        split: sum.splits)
  note tl = toml_layers [OF sc]
  from cache_loop_effect [OF bp nm(2) nm(3) u1 tl(1) tl(2) dir s1]
  have l1: "\<And>l. l \<in> set ?ls \<Longrightarrow> cache_flagged es l \<Longrightarrow>
        \<exists>ds c. map_of es l = Some (Dir ds) \<and> map_of es (l @ ''.toml'') = Some (File c) \<and>
           walk (fs w1) (?C @ [l]) = Inr (Dir ds) \<and>
           walk (fs w1) (?C @ [l @ ''.toml'']) = Inr (File c)"
    and l2: "\<And>q. (\<forall>l \<in> set ?ls. cache_flagged es l \<longrightarrow>
              unrelated q (?C @ [l]) \<and> unrelated q (?C @ [l @ ''.toml''])) \<Longrightarrow>
          walk (fs w1) q = walk (fs w) q"
    by auto
  from cache_loop_reads [OF bp nm(2) nm(3) u1 tl(2) dir s1]
  have rd: "\<And>l. l \<in> set ?ls \<Longrightarrow> \<exists>c. map_of es (l @ ''.toml'') = Some (File c)" by blast
  have uc: "unrelated (?C @ x) ?D" for x
    using unrelated_append [OF u3, of "[''cnb'', ?bp] @ x" "[?bp]"] by simp
  have ul: "unrelated layersPath (?C @ x)" for x
    using unrelated_append [OF u1, of "[]" "[''cnb'', ?bp] @ x"] by simp
  have ud: "unrelated layersPath ?D" using u2 by (rule unrelated_ext)
  from nm(2,4) bp have "[] \<notin> set layersPath" "[] \<notin> set ?D" by auto
  from CopyDirectory_effect [OF s3 this] obtain es' where
    d1: "walk (fs w2) layersPath = Inr (Dir es')"
    and d2: "walk (fs w') ?D = Inr (Dir es')"
    and d3: "\<And>q. unrelated q ?D \<Longrightarrow> walk (fs w') q = walk (fs w2) q" by blast
  have m: "walk (fs w2) q = walk (fs w1) q" if "unrelated q ?D" for q
    using os_MkdirAll_frame [OF s2 that] .
  have tail: "walk (fs w') q = walk (fs w1) q" if "unrelated q ?D" for q
    using d3 [OF that] m [OF that] by simp
  have lw: "walk (fs w1) layersPath = walk (fs w) layersPath"
    using l2 [of layersPath] ul by simp
  with d1 m [OF ud] dir have "es' = es" by simp
  with d2 show c: "walk (fs w') ?D = Inr (Dir es)" by simp
  from tail [OF ud] lw dir show "walk (fs w') layersPath = Inr (Dir es)" by simp
  have a: "\<exists>ds c. map_of es l = Some (Dir ds) \<and> map_of es (l @ ''.toml'') = Some (File c) \<and>
           walk (fs w') (?C @ [l]) = Inr (Dir ds) \<and>
           walk (fs w') (?C @ [l @ ''.toml'']) = Inr (File c)"
    if fl: "cache_flagged es l" for l
  proof -
    from fl obtain n where "map_of es (l @ ''.toml'') = Some n"
      by (auto simp: cache_flagged_def split: option.splits)
    then have "l \<in> set ?ls" by (rule tl(3))
    from l1 [OF this fl] obtain ds c where
      "map_of es l = Some (Dir ds)" "map_of es (l @ ''.toml'') = Some (File c)"
      "walk (fs w1) (?C @ [l]) = Inr (Dir ds)" "walk (fs w1) (?C @ [l @ ''.toml'']) = Inr (File c)"
      by blast
    with tail [OF uc, of "[l]"] tail [OF uc, of "[l @ ''.toml'']"]
    show ?thesis by simp
  qed
  then show "\<forall>l. cache_flagged es l \<longrightarrow>
        (\<exists>ds c. map_of es l = Some (Dir ds) \<and> map_of es (l @ ''.toml'') = Some (File c) \<and>
           walk (fs w') (V2CacheDir f @ [''cnb'', last layersPath, l]) = Inr (Dir ds) \<and>
           walk (fs w') (V2CacheDir f @ [''cnb'', last layersPath, l @ ''.toml'']) = Inr (File c))"
    by simp
  have b: "walk (fs w') (?C @ [l]) = walk (fs w) (?C @ [l]) \<and>
      walk (fs w') (?C @ [l @ ''.toml'']) = walk (fs w) (?C @ [l @ ''.toml''])"
    if d: "map_of es l = Some (Dir ds)" and nf: "\<not> cache_flagged es l" for l ds
  proof -
    have "\<forall>x \<in> set ?ls. cache_flagged es x \<longrightarrow>
        unrelated (?C @ [l]) (?C @ [x]) \<and> unrelated (?C @ [l]) (?C @ [x @ ''.toml''])"
    proof (intro ballI impI)
      fix x assume "x \<in> set ?ls" and fx: "cache_flagged es x"
      from fx nf have p: "l \<noteq> x" by auto
      from fx have "\<exists>c. map_of es (x @ ''.toml'') = Some (File c)"
        by (auto simp: cache_flagged_def split: option.splits node.splits)
      with d have q: "l \<noteq> x @ ''.toml''" by auto
      from p q show "unrelated (?C @ [l]) (?C @ [x]) \<and> unrelated (?C @ [l]) (?C @ [x @ ''.toml''])"
        by (simp add: unrelated_sibling3)
    qed
    from l2 [OF this] tail [OF uc, of "[l]"]
    have one: "walk (fs w') (?C @ [l]) = walk (fs w) (?C @ [l])" by simp
    have "\<forall>x \<in> set ?ls. cache_flagged es x \<longrightarrow>
        unrelated (?C @ [l @ ''.toml'']) (?C @ [x]) \<and>
        unrelated (?C @ [l @ ''.toml'']) (?C @ [x @ ''.toml''])"
    proof (intro ballI impI)
      fix x assume xs: "x \<in> set ?ls" and fx: "cache_flagged es x"
      from fx nf have p: "l @ ''.toml'' \<noteq> x @ ''.toml''" by auto
      from l1 [OF xs fx] obtain xd where xd: "map_of es x = Some (Dir xd)" by blast
      have q: "l @ ''.toml'' \<noteq> x"
      proof
        assume e: "l @ ''.toml'' = x"
        with xd have "map_of es (l @ ''.toml'') = Some (Dir xd)" by simp
        then have "l \<in> set ?ls" by (rule tl(3))
        from rd [OF this] e xd show False by simp
      qed
      from p q show "unrelated (?C @ [l @ ''.toml'']) (?C @ [x]) \<and>
          unrelated (?C @ [l @ ''.toml'']) (?C @ [x @ ''.toml''])"
        by (simp add: unrelated_sibling3)
    qed
    from l2 [OF this] tail [OF uc, of "[l @ ''.toml'']"]
    have "walk (fs w') (?C @ [l @ ''.toml'']) = walk (fs w) (?C @ [l @ ''.toml''])" by simp
    with one show ?thesis by simp
  qed
  then show "\<forall>l ds. map_of es l = Some (Dir ds) \<and> \<not> cache_flagged es l \<longrightarrow>
        walk (fs w') (V2CacheDir f @ [''cnb'', last layersPath, l]) =
          walk (fs w) (V2CacheDir f @ [''cnb'', last layersPath, l]) \<and>
        walk (fs w') (V2CacheDir f @ [''cnb'', last layersPath, l @ ''.toml'']) =
          walk (fs w) (V2CacheDir f @ [''cnb'', last layersPath, l @ ''.toml''])"
    by simp
qed

lemma star_all: "star = (\<lambda>n. True)"
  by (rule ext) (simp add: star_def)

lemma glob_star:
  "walk r dir = Inr (Dir es) \<Longrightarrow>
     glob star r dir = map (\<lambda>n. dir @ [n]) (sort (remdups (map fst es)))"
  by (simp add: glob_def star_all)

lemma MoveV3Layers_example: "MoveV3Layers example_finalizer layers_world = Inr persisted_world"
  by (simp add: MoveV3Layers_def moveV3Layer_def moveV3Config_def Let_def glob_def star_def
      star_suffix_def suffix_to_prefix os_Rename_def rename_def move_def
      filepath_Base_def clean_def cacheLayer_def drop_toml_def ReadLayerMetadata_def
      CopyFile_def CopyDirectory_def copyDirectory_def mkdirAll.simps
      os_MkdirAll_def ioutil_ReadFile_def on_fs_def writeFile_def filepath_Join_def path_plus_def
      layers_world_def persisted_world_def produced_layers_def tool_layers_def tmp_home_world_def
      example_finalizer_def)

section \<open>Verified properties\<close>

text \<open>
  C10. \<open>RenameEnvDir\<close> returns no error when the layer has no \<open>env\<close> entry (the rename is
  skipped and the state is unchanged); an error it returns is an error of the rename other
  than non-existence; when \<open>env\<close> exists and the call succeeds, \<open>env.build\<close> holds what
  \<open>env\<close> held and \<open>env\<close> is gone, and the call does succeed when \<open>env.build\<close> is free.
\<close>

theorem RenameEnvDir_errors:
  "(walk (fs w) (dst @ [''env'']) = Inl ENOENT \<longrightarrow> RenameEnvDir f dst w = Inr w) \<and>
   (\<forall>err. RenameEnvDir f dst w = Inl err \<longrightarrow>
      (\<exists>e. err = PathError e \<and> e \<noteq> ENOENT \<and>
           rename (dst @ [''env'']) (dst @ [''env.build'']) (fs w) = Inl e)) \<and>
   (\<forall>n w'. walk (fs w) (dst @ [''env'']) = Inr n \<and> RenameEnvDir f dst w = Inr w' \<longrightarrow>
      walk (fs w') (dst @ [''env.build'']) = Inr n \<and>
      walk (fs w') (dst @ [''env'']) = Inl ENOENT) \<and>
   (\<forall>n. walk (fs w) (dst @ [''env'']) = Inr n \<and>
        walk (fs w) (dst @ [''env.build'']) = Inl ENOENT \<longrightarrow>
      (\<exists>w'. RenameEnvDir f dst w = Inr w'))"
proof -
  have p1: "RenameEnvDir f dst w = Inr w" if "walk (fs w) (dst @ [''env'']) = Inl ENOENT"
    using that
    by (simp add: RenameEnvDir_def os_Rename_def on_fs_def rename_def filepath_Join_def)
  have p2: "\<exists>e. err = PathError e \<and> e \<noteq> ENOENT \<and>
           rename (dst @ [''env'']) (dst @ [''env.build'']) (fs w) = Inl e"
    if "RenameEnvDir f dst w = Inl err" for err
    using that
    by (auto simp: RenameEnvDir_def os_Rename_def on_fs_def filepath_Join_def
        split: sum.splits if_splits)
  have p3: "walk (fs w') (dst @ [''env.build'']) = Inr n \<and>
      walk (fs w') (dst @ [''env'']) = Inl ENOENT"
    if n: "walk (fs w) (dst @ [''env'']) = Inr n" and ok: "RenameEnvDir f dst w = Inr w'"
    for n w'
  proof -
    have np: "\<not> prefix (dst @ [''env.build'']) (dst @ [''env''])" by simp
    from rename_sibling_not_ENOENT [OF n]
    have "rename (dst @ [''env'']) (dst @ [''env.build'']) (fs w) \<noteq> Inl ENOENT" .
    with ok have r: "rename (dst @ [''env'']) (dst @ [''env.build'']) (fs w) = Inr (fs w')"
      by (auto simp: RenameEnvDir_def os_Rename_def on_fs_def filepath_Join_def
          split: sum.splits if_splits)
    from rename_moved(1) [OF r np n, of "[]"] rename_moved(2) [OF r np n]
    show ?thesis by simp
  qed
  have p4: "\<exists>w'. RenameEnvDir f dst w = Inr w'"
    if "walk (fs w) (dst @ [''env'']) = Inr n"
      and "walk (fs w) (dst @ [''env.build'']) = Inl ENOENT" for n
  proof -
    from that obtain r' where "rename (dst @ [''env'']) (dst @ [''env.build'']) (fs w) = Inr r'"
      using rename_sibling_fresh by blast
    then show ?thesis
      by (simp add: RenameEnvDir_def os_Rename_def on_fs_def filepath_Join_def)
  qed
  from p1 p2 p3 p4 show ?thesis by blast
qed

theorem RenameEnvDir_errors_witness:
  "RenameEnvDir example_finalizer [''layer''] (env_world []) = Inr (env_world []) \<and>
   RenameEnvDir example_finalizer [''layer'']
     (env_world [(''env'', Dir []), (''env.build'', Dir [(''PATH'', File (Bytes ''p''))])])
     = Inl (PathError EEXIST) \<and>
   walk (fs (env_world [(''env'', Dir [(''PATH'', File (Bytes ''p''))])])) [''layer'', ''env'']
     = Inr (Dir [(''PATH'', File (Bytes ''p''))]) \<and>
   (\<exists>w'. RenameEnvDir example_finalizer [''layer'']
           (env_world [(''env'', Dir [(''PATH'', File (Bytes ''p''))])]) = Inr w' \<and>
         walk (fs w') [''layer'', ''env.build''] = Inr (Dir [(''PATH'', File (Bytes ''p''))]) \<and>
         walk (fs w') [''layer'', ''env''] = Inl ENOENT)"
  using RenameEnvDir_errors [of "env_world []" "[''layer'']" example_finalizer]
    RenameEnvDir_errors [of "env_world [(''env'', Dir [(''PATH'', File (Bytes ''p''))])]"
      "[''layer'']" example_finalizer]
  by (simp add: env_world_def RenameEnvDir_def os_Rename_def on_fs_def filepath_Join_def
      rename_def move_def)

text \<open>
  C1. With at least one fragment discovered in the order directory, a successful
  \<open>MergeOrderTOMLs\<close> writes the order whose groups are the groups of every discovered
  fragment, each fragment's groups in their own order, the fragments in discovery order;
  the discovery order is ascending in the legacy index, and the discovered fragments are
  exactly the fragment files of the directory, so none is dropped. The merge succeeds when
  every fragment parses and the destination can be written.
\<close>

theorem MergeOrderTOMLs_complete:
  assumes "walk (fs w) (OrderDir f) = Inr (Dir es)" and "discover_fragments es \<noteq> []"
  shows
    "(\<forall>w'. MergeOrderTOMLs f w = Inr w' \<longrightarrow>
        (\<exists>orders.
           map Some orders = map (\<lambda>fr. fragment_at w (OrderDir f) (snd fr)) (discover_fragments es) \<and>
           walk (fs w') (OrderMetadata f) =
             Inr (File (OrderTOML \<lparr>Groups = concat (map Groups orders)\<rparr>)))) \<and>
     sorted (map fst (discover_fragments es)) \<and>
     set (discover_fragments es) =
       {(i, name). name \<in> fst ` set es \<and> fragment_index name = Some i} \<and>
     ((\<forall>fr \<in> set (discover_fragments es). fragment_at w (OrderDir f) (snd fr) \<noteq> None) \<and>
      OrderMetadata f \<noteq> [] \<and>
      (\<exists>ps. walk (fs w) (butlast (OrderMetadata f)) = Inr (Dir ps)) \<and>
      (\<forall>ds. walk (fs w) (OrderMetadata f) \<noteq> Inr (Dir ds)) \<longrightarrow>
      (\<exists>w'. MergeOrderTOMLs f w = Inr w'))"
proof -
  let ?names = "map snd (discover_fragments es)"
  have p: "parseOrderTOMLs (OrderDir f) w = parse_fragments (OrderDir f) w ?names"
    using assms(1) by (simp add: parseOrderTOMLs_def)
  have a: "\<exists>orders.
           map Some orders = map (\<lambda>fr. fragment_at w (OrderDir f) (snd fr)) (discover_fragments es) \<and>
           walk (fs w') (OrderMetadata f) =
             Inr (File (OrderTOML \<lparr>Groups = concat (map Groups orders)\<rparr>))"
    if ok: "MergeOrderTOMLs f w = Inr w'" for w'
  proof -
    from ok p obtain orders where o: "parse_fragments (OrderDir f) w ?names = Inr orders"
      and e: "encodeTOML (OrderMetadata f) (OrderTOML (combineOrders orders)) w = Inr w'"
      by (auto simp: MergeOrderTOMLs_def split: sum.splits if_splits)
    from e have "writeFile (OrderMetadata f) (OrderTOML (combineOrders orders)) (fs w) = Inr (fs w')"
      by (auto simp: encodeTOML_def on_fs_def split: sum.splits)
    from writeFile_walk [OF this] parse_fragments_fragment_at [OF o]
    show ?thesis by (auto simp: combineOrders_def comp_def)
  qed
  have d: "\<exists>w'. MergeOrderTOMLs f w = Inr w'"
    if h: "\<forall>fr \<in> set (discover_fragments es). fragment_at w (OrderDir f) (snd fr) \<noteq> None"
      and ne: "OrderMetadata f \<noteq> []"
      and par: "\<exists>ps. walk (fs w) (butlast (OrderMetadata f)) = Inr (Dir ps)"
      and nd: "\<forall>ds. walk (fs w) (OrderMetadata f) \<noteq> Inr (Dir ds)"
  proof -
    from h have "\<forall>name \<in> set ?names. fragment_at w (OrderDir f) name \<noteq> None" by auto
    from parse_fragments_ok [OF this] obtain orders
      where o: "parse_fragments (OrderDir f) w ?names = Inr orders" by blast
    from parse_fragments_length [OF o] assms(2) have n: "orders \<noteq> []" by auto
    from par obtain ps where "walk (fs w) (butlast (OrderMetadata f)) = Inr (Dir ps)" by blast
    from writeFile_ok [OF ne this nd] obtain r'
      where "writeFile (OrderMetadata f) (OrderTOML (combineOrders orders)) (fs w) = Inr r'"
      by blast
    with o n p show ?thesis
      by (simp add: MergeOrderTOMLs_def encodeTOML_def on_fs_def)
  qed
  from a d discover_fragments_sorted [of es] discover_fragments_set [of es]
  show ?thesis by blast
qed

theorem MergeOrderTOMLs_complete_witness:
  "walk (fs (vcap_world [(''order'', Dir order_entries), (''metadata'', Dir [])]))
     (OrderDir example_finalizer) = Inr (Dir order_entries) \<and>
   discover_fragments order_entries \<noteq> [] \<and>
   (\<exists>w'. MergeOrderTOMLs example_finalizer
            (vcap_world [(''order'', Dir order_entries), (''metadata'', Dir [])]) = Inr w' \<and>
         walk (fs w') (OrderMetadata example_finalizer) =
           Inr (File (OrderTOML \<lparr>Groups = [lang_group ''lang-a'', lang_group ''lang-b'']\<rparr>)))"
proof -
  let ?W = "vcap_world [(''order'', Dir order_entries), (''metadata'', Dir [])]"
  let ?F = example_finalizer
  have h1: "walk (fs ?W) (OrderDir ?F) = Inr (Dir order_entries)"
    by (simp add: example_finalizer_def vcap_world_def)
  have h2: "discover_fragments order_entries \<noteq> []"
    by (simp add: discover_order_entries)
  note T = MergeOrderTOMLs_complete [OF h1 h2]
  have fa: "map (\<lambda>fr. fragment_at ?W (OrderDir ?F) (snd fr)) (discover_fragments order_entries) =
      [Some \<lparr>Groups = [lang_group ''lang-a'']\<rparr>, Some \<lparr>Groups = [lang_group ''lang-b'']\<rparr>]"
    unfolding discover_order_entries by (simp add: fragment_at_def example_paths)
  have pre: "(\<forall>fr \<in> set (discover_fragments order_entries).
        fragment_at ?W (OrderDir ?F) (snd fr) \<noteq> None) \<and>
      OrderMetadata ?F \<noteq> [] \<and>
      (\<exists>ps. walk (fs ?W) (butlast (OrderMetadata ?F)) = Inr (Dir ps)) \<and>
      (\<forall>ds. walk (fs ?W) (OrderMetadata ?F) \<noteq> Inr (Dir ds))"
    unfolding discover_order_entries by (simp add: fragment_at_def example_paths)
  from T pre obtain w' where ok: "MergeOrderTOMLs ?F ?W = Inr w'" by blast
  from T ok obtain orders where
    o: "map Some orders =
        map (\<lambda>fr. fragment_at ?W (OrderDir ?F) (snd fr)) (discover_fragments order_entries)"
    and g: "walk (fs w') (OrderMetadata ?F) =
        Inr (File (OrderTOML \<lparr>Groups = concat (map Groups orders)\<rparr>))"
    by blast
  from o fa have "orders = [\<lparr>Groups = [lang_group ''lang-a'']\<rparr>, \<lparr>Groups = [lang_group ''lang-b'']\<rparr>]"
    by (auto simp: map_eq_Cons_conv)
  with g ok h1 h2 show ?thesis by simp
qed

text \<open>
  C2. \<open>MergeOrderTOMLs\<close> fails with the error \<open>no order.toml found\<close> if and only if the
  discovery succeeds with zero fragments; with a fragment in the order directory it does
  not return that error.
\<close>

theorem MergeOrderTOMLs_no_fragments:
  "(MergeOrderTOMLs f w = Inl NoOrderTomlFound \<longleftrightarrow> parseOrderTOMLs (OrderDir f) w = Inr []) \<and>
   (parseOrderTOMLs (OrderDir f) w = Inr [] \<longleftrightarrow>
      (\<exists>es. walk (fs w) (OrderDir f) = Inr (Dir es) \<and> discover_fragments es = [])) \<and>
   (\<forall>es. walk (fs w) (OrderDir f) = Inr (Dir es) \<and> discover_fragments es \<noteq> [] \<longrightarrow>
      MergeOrderTOMLs f w \<noteq> Inl NoOrderTomlFound)"
proof -
  have a: "MergeOrderTOMLs f w = Inl NoOrderTomlFound \<longleftrightarrow> parseOrderTOMLs (OrderDir f) w = Inr []"
    using parseOrderTOMLs_not_NoOrder [of "OrderDir f" w]
      encodeTOML_not_NoOrder [of "OrderMetadata f" _ w]
    by (cases "parseOrderTOMLs (OrderDir f) w") (auto simp: MergeOrderTOMLs_def)
  have b: "parseOrderTOMLs (OrderDir f) w = Inr [] \<longleftrightarrow>
      (\<exists>es. walk (fs w) (OrderDir f) = Inr (Dir es) \<and> discover_fragments es = [])"
    by (rule parseOrderTOMLs_empty)
  from a b show ?thesis by auto
qed

theorem MergeOrderTOMLs_no_fragments_witness:
  "MergeOrderTOMLs example_finalizer (vcap_world [(''order'', Dir []), (''metadata'', Dir [])])
     = Inl NoOrderTomlFound \<and>
   MergeOrderTOMLs example_finalizer
     (vcap_world [(''order'', Dir order_entries), (''metadata'', Dir [])]) \<noteq> Inl NoOrderTomlFound"
proof -
  let ?E = "vcap_world [(''order'', Dir []), (''metadata'', Dir [])]"
  let ?W = "vcap_world [(''order'', Dir order_entries), (''metadata'', Dir [])]"
  have e: "walk (fs ?E) (OrderDir example_finalizer) = Inr (Dir []) \<and> discover_fragments [] = []"
    by (simp add: example_finalizer_def vcap_world_def discover_fragments_def)
  have n: "walk (fs ?W) (OrderDir example_finalizer) = Inr (Dir order_entries) \<and>
      discover_fragments order_entries \<noteq> []"
    by (simp add: example_finalizer_def vcap_world_def discover_order_entries)
  from MergeOrderTOMLs_no_fragments [of example_finalizer ?E] e
  have "MergeOrderTOMLs example_finalizer ?E = Inl NoOrderTomlFound" by blast
  moreover from MergeOrderTOMLs_no_fragments [of example_finalizer ?W] n
  have "MergeOrderTOMLs example_finalizer ?W \<noteq> Inl NoOrderTomlFound" by blast
  ultimately show ?thesis by simp
qed

text \<open>
  C8. \<open>RunV3Detect\<close> runs the Detector if and only if \<open>os.Stat\<close> reports the group metadata
  file or the plan metadata file as not existing: it returns the unchanged state exactly
  when neither is reported missing, in particular when both files exist; otherwise its
  result is the result of the Detector run, which is counted.
\<close>

theorem RunV3Detect_conditional:
  "(RunV3Detect f w = Inr w \<longleftrightarrow>
      \<not> (walk (fs w) (GroupMetadata f) = Inl ENOENT \<or> walk (fs w) (PlanMetadata f) = Inl ENOENT)) \<and>
   (walk (fs w) (GroupMetadata f) = Inl ENOENT \<or> walk (fs w) (PlanMetadata f) = Inl ENOENT \<longrightarrow>
      RunV3Detect f w = RunLifecycleDetect f w \<and>
      (\<forall>w'. RunV3Detect f w = Inr w' \<longrightarrow>
         Detector f (fs w) = Inr (fs w') \<and> detector_calls w' = Suc (detector_calls w))) \<and>
   ((\<exists>g. walk (fs w) (GroupMetadata f) = Inr g) \<and> (\<exists>p. walk (fs w) (PlanMetadata f) = Inr p) \<longrightarrow>
      RunV3Detect f w = Inr w)"
proof -
  have ne: "err_IsNotExist (os_Stat p w) \<longleftrightarrow> walk (fs w) p = Inl ENOENT" for p
    by (cases "walk (fs w) p") (auto simp: err_IsNotExist_def os_Stat_def)
  have d: "RunV3Detect f w =
      (if walk (fs w) (GroupMetadata f) = Inl ENOENT \<or> walk (fs w) (PlanMetadata f) = Inl ENOENT
       then RunLifecycleDetect f w else Inr w)"
    by (simp add: RunV3Detect_def Let_def ne)
  have s: "Detector f (fs w) = Inr (fs w') \<and> detector_calls w' = Suc (detector_calls w)"
    if "RunLifecycleDetect f w = Inr w'" for w'
    using that by (cases "Detector f (fs w)") (auto simp: RunLifecycleDetect_def)
  from d s RunLifecycleDetect_neq [of f w] show ?thesis by auto
qed

theorem RunV3Detect_conditional_witness:
  "RunV3Detect example_finalizer (vcap_world [(''metadata'', Dir metadata_entries)])
     = Inr (vcap_world [(''metadata'', Dir metadata_entries)]) \<and>
   RunV3Detect example_finalizer (vcap_world [(''metadata'', Dir [])])
     = Inr ((vcap_world [(''metadata'', Dir [])])\<lparr>detector_calls := 1\<rparr>)"
proof -
  let ?B = "vcap_world [(''metadata'', Dir metadata_entries)]"
  let ?N = "vcap_world [(''metadata'', Dir [])]"
  have b: "(\<exists>g. walk (fs ?B) (GroupMetadata example_finalizer) = Inr g) \<and>
      (\<exists>p. walk (fs ?B) (PlanMetadata example_finalizer) = Inr p)"
    by (simp add: example_finalizer_def vcap_world_def metadata_entries_def)
  have n: "walk (fs ?N) (GroupMetadata example_finalizer) = Inl ENOENT"
    by (simp add: example_finalizer_def vcap_world_def)
  from RunV3Detect_conditional [of example_finalizer ?B] b
  have "RunV3Detect example_finalizer ?B = Inr ?B" by blast
  moreover from RunV3Detect_conditional [of example_finalizer ?N] n
  have "RunV3Detect example_finalizer ?N = RunLifecycleDetect example_finalizer ?N" by blast
  then have "RunV3Detect example_finalizer ?N = Inr (?N\<lparr>detector_calls := 1\<rparr>)"
    by (simp add: RunLifecycleDetect_def example_finalizer_def vcap_world_def)
  ultimately show ?thesis by simp
qed




text \<open>
  C9, as amended. When every override file holds at most one manifest, the result of
  \<open>ApplyOverrideYMLs\<close> does not depend on the order in which the runs iterate the override
  maps: it is a function of the files, the descriptors and their discovery order.
\<close>

theorem ApplyOverrideYMLs_deterministic:
  assumes "valid_order ro1" and "valid_order ro2" and "all_files single_manifest (fs w)"
  shows "ApplyOverrideYMLs ro1 f w = ApplyOverrideYMLs ro2 f w"
  using override_loop_order [OF assms] by (simp add: ApplyOverrideYMLs_def Let_def)

theorem ApplyOverrideYMLs_deterministic_witness:
  "valid_order id \<and> valid_order rev \<and>
   all_files single_manifest (fs (override_world [(''x'', manifest_of (entry_A ''1'' ''aaa''))])) \<and>
   ApplyOverrideYMLs id example_finalizer (override_world [(''x'', manifest_of (entry_A ''1'' ''aaa''))]) =
   ApplyOverrideYMLs rev example_finalizer (override_world [(''x'', manifest_of (entry_A ''1'' ''aaa''))]) \<and>
   descriptor_deps (ApplyOverrideYMLs rev example_finalizer
       (override_world [(''x'', manifest_of (entry_A ''1'' ''aaa''))])) =
     [v2ToV3Dep (entry_A ''1'' ''aaa'')]"
proof -
  let ?W = "override_world [(''x'', manifest_of (entry_A ''1'' ''aaa''))]"
  have v: "valid_order id" "valid_order rev" by (simp_all add: valid_order_def)
  have a: "all_files single_manifest (fs ?W)"
    by (simp add: override_world_def single_manifest_def)
  have d: "descriptor_deps (ApplyOverrideYMLs rev example_finalizer ?W) =
      [v2ToV3Dep (entry_A ''1'' ''aaa'')]"
    by (simp add: apply_example manifest_of_def apply_manifest_def
        upsert_dep_eq same_key_def empty_BuildpackTOML_def)
  from ApplyOverrideYMLs_deterministic [OF v a, of example_finalizer] v a d
  show ?thesis by simp
qed

text \<open>
  C9, as stated, fails: one override file with two manifests that override the same
  dependency; a run that visits the manifests in one order and a run that visits them in
  the other leave different descriptors.
\<close>

theorem ApplyOverrideYMLs_order_counterexample:
  "valid_order id \<and> valid_order rev \<and>
   ApplyOverrideYMLs id example_finalizer (override_world two_manifests) \<noteq>
   ApplyOverrideYMLs rev example_finalizer (override_world two_manifests)"
proof -
  have "descriptor_deps (ApplyOverrideYMLs id example_finalizer (override_world two_manifests)) =
      [v2ToV3Dep (entry_A ''1'' ''bbb'')]"
    by (simp add: apply_example two_manifests_def manifest_of_def apply_manifest_def
        upsert_dep_eq same_key_def v2ToV3Dep_def entry_A_def empty_BuildpackTOML_def)
  moreover
  have "descriptor_deps (ApplyOverrideYMLs rev example_finalizer (override_world two_manifests)) =
      [v2ToV3Dep (entry_A ''1'' ''aaa'')]"
    by (simp add: apply_example two_manifests_def manifest_of_def apply_manifest_def
        upsert_dep_eq same_key_def v2ToV3Dep_def entry_A_def empty_BuildpackTOML_def)
  ultimately have "ApplyOverrideYMLs id example_finalizer (override_world two_manifests) \<noteq>
      ApplyOverrideYMLs rev example_finalizer (override_world two_manifests)"
    by (auto simp: v2ToV3Dep_def entry_A_def)
  then show ?thesis by (simp add: valid_order_def)
qed

text \<open>
  C7. When the durable cache root, the directory \<open>cnb\<close> of the legacy cache directory, does
  not exist, \<open>RestoreV3Cache\<close> returns the unchanged state without error. When it exists as
  a directory apart from the layers directory, then after a successful restore every entry
  it held is found under the layers directory and no entry is left at the cache root.
\<close>

theorem RestoreV3Cache_restore:
  "(walk (fs w) (V2CacheDir f @ [''cnb'']) = Inl ENOENT \<longrightarrow> RestoreV3Cache f w = Inr w) \<and>
   (\<forall>es w'. walk (fs w) (V2CacheDir f @ [''cnb'']) = Inr (Dir es) \<and>
        unrelated (V2CacheDir f @ [''cnb'']) (V3LayersDir f) \<and>
        RestoreV3Cache f w = Inr w' \<longrightarrow>
      (\<forall>name n. map_of es name = Some n \<longrightarrow> walk (fs w') (V3LayersDir f @ [name]) = Inr n) \<and>
      (\<forall>name. walk (fs w') (V2CacheDir f @ [''cnb'', name]) = Inl ENOENT))"
proof -
  let ?cnb = "V2CacheDir f @ [''cnb'']"
  let ?dst = "V3LayersDir f"
  have p1: "RestoreV3Cache f w = Inr w" if "walk (fs w) ?cnb = Inl ENOENT"
    using that by (simp add: RestoreV3Cache_def FileExists_def os_Stat_def filepath_Join_def)
  have p2: "(\<forall>name n. map_of es name = Some n \<longrightarrow> walk (fs w') (?dst @ [name]) = Inr n) \<and>
      (\<forall>name. walk (fs w') (?cnb @ [name]) = Inl ENOENT)"
    if d: "walk (fs w) ?cnb = Inr (Dir es)" and u: "unrelated ?cnb ?dst"
      and ok: "RestoreV3Cache f w = Inr w'" for es w'
  proof -
    from d ok have m: "MoveDirectory ?cnb ?dst w = Inr w'"
      by (simp add: RestoreV3Cache_def FileExists_def os_Stat_def filepath_Join_def)
    show ?thesis
    proof (cases "walk (fs w) ?dst")
      case (Inl e)
      with m d have r: "os_Rename ?cnb ?dst w = Inr w'" by (simp add: MoveDirectory_def)
      from u have "\<not> prefix ?dst ?cnb" by (simp add: unrelated_def)
      from os_Rename_moved [OF r this] d
      have a: "walk (fs w') ?dst = Inr (Dir es)" and b: "walk (fs w') ?cnb = Inl ENOENT" by auto
      have "walk (fs w') (?cnb @ [name]) = Inl ENOENT" for name
        using walk_append [of "fs w'" ?cnb "[name]"] b by simp
      with walk_child [OF a] show ?thesis by simp
    next
      case (Inr n0)
      let ?names = "sort (remdups (map fst es))"
      from Inr m d have me: "move_entries ?cnb ?dst ?names w = Inr w'"
        by (simp add: MoveDirectory_def)
      have dn: "distinct ?names" by simp
      have a: "walk (fs w') (?dst @ [name]) = Inr n" if s: "map_of es name = Some n" for name n
      proof -
        from s have "name \<in> set ?names" by (rule map_of_names)
        from move_entries_moved [OF u me dn this] walk_child [OF d, of name] s
        show ?thesis by simp
      qed
      have b: "walk (fs w') (?cnb @ [name]) = Inl ENOENT" for name
      proof (cases "name \<in> set ?names")
        case True
        from move_entries_moved [OF u me dn this] show ?thesis by simp
      next
        case False
        then have "map_of es name = None" by (auto simp: map_of_eq_None_iff)
        with walk_child [OF d, of name] have e: "walk (fs w) (?cnb @ [name]) = Inl ENOENT" by simp
        have "\<forall>x \<in> set ?names. unrelated (?cnb @ [name]) (?cnb @ [x]) \<and>
            unrelated (?cnb @ [name]) (?dst @ [x])"
        proof
          fix x assume "x \<in> set ?names"
          with False have "name \<noteq> x" by auto
          then have "unrelated (?cnb @ [name]) (?cnb @ [x])" by (rule unrelated_sibling)
          moreover have "unrelated (?cnb @ [name]) (?dst @ [x])" using u by (rule unrelated_append)
          ultimately show "unrelated (?cnb @ [name]) (?cnb @ [x]) \<and>
            unrelated (?cnb @ [name]) (?dst @ [x])" by simp
        qed
        from move_entries_frame [OF me this] e show ?thesis by simp
      qed
      from a b show ?thesis by simp
    qed
  qed
  from p1 p2 show ?thesis by simp
qed

theorem RestoreV3Cache_restore_witness:
  "RestoreV3Cache example_finalizer (tmp_home_world [(''cache'', Dir [])] [(''deps'', Dir [])])
     = Inr (tmp_home_world [(''cache'', Dir [])] [(''deps'', Dir [])]) \<and>
   (\<exists>w'. RestoreV3Cache example_finalizer
            (tmp_home_world [(''cache'', Dir [(''cnb'', Dir cached_layers)])]
               [(''deps'', Dir [(''buildpack.0'', Dir [])])]) = Inr w' \<and>
         walk (fs w') [''home'', ''vcap'', ''deps'', ''org.lang''] = walk (Dir cached_layers) [''org.lang''] \<and>
         walk (fs w') [''tmp'', ''cache'', ''cnb'', ''org.lang''] = Inl ENOENT)"
proof -
  let ?A = "tmp_home_world [(''cache'', Dir [])] [(''deps'', Dir [])]"
  let ?P = "tmp_home_world [(''cache'', Dir [(''cnb'', Dir cached_layers)])]
               [(''deps'', Dir [(''buildpack.0'', Dir [])])]"
  have a: "walk (fs ?A) (V2CacheDir example_finalizer @ [''cnb'']) = Inl ENOENT"
    by (simp add: tmp_home_world_def example_finalizer_def)
  have p: "walk (fs ?P) (V2CacheDir example_finalizer @ [''cnb'']) = Inr (Dir cached_layers)"
    by (simp add: tmp_home_world_def example_finalizer_def)
  have u: "unrelated (V2CacheDir example_finalizer @ [''cnb'']) (V3LayersDir example_finalizer)"
    by (simp add: unrelated_def example_finalizer_def)
  obtain w' where ok: "RestoreV3Cache example_finalizer ?P = Inr w'"
    using restore_example by blast
  have m: "map_of cached_layers ''org.lang'' = Some (Dir [(''jdk'', Dir [(''bin'', Dir [])]),
      (''jdk.toml'', File (LayerTOML \<lparr>Build = False, Launch = True, Cache = True\<rparr>))])"
    by (simp add: cached_layers_def)
  from RestoreV3Cache_restore [of ?A example_finalizer] a
  have "RestoreV3Cache example_finalizer ?A = Inr ?A" by blast
  moreover from RestoreV3Cache_restore [of ?P example_finalizer] p u ok m
  have "walk (fs w') (V3LayersDir example_finalizer @ [''org.lang'']) =
      Inr (Dir [(''jdk'', Dir [(''bin'', Dir [])]),
        (''jdk.toml'', File (LayerTOML \<lparr>Build = False, Launch = True, Cache = True\<rparr>))]) \<and>
    walk (fs w') (V2CacheDir example_finalizer @ [''cnb'', ''org.lang'']) = Inl ENOENT"
    by blast
  ultimately show ?thesis using ok by (simp add: example_finalizer_def cached_layers_def)
qed

text \<open>
  C3. Let the deps index parse to \<open>N\<close>, let every legacy index below \<open>N\<close> have output in the
  legacy deps directory, let the group metadata file hold the detected group, and let the
  group file, the legacy deps directory, the layers directory and the buildpacks directory
  lie apart. Then after \<open>IncludePreviousV2Buildpacks\<close> has succeeded the group file holds the
  references \<open>buildpack.0\<close>, ..., \<open>buildpack.(N-1)\<close> in ascending order followed by exactly the
  references of the detected group.
\<close>

theorem IncludePreviousV2Buildpacks_group_order:
  assumes idx: "strconv_Atoi (DepsIndex f) = Inr (int N)"
    and present: "\<forall>i < N. \<exists>n. walk (fs w) (V2DepsDir f @ [strconv_Itoa (int i)]) = Inr n"
    and grp: "walk (fs w) (GroupMetadata f) = Inr (File (GroupTOML g))"
    and u1: "unrelated (GroupMetadata f) (V2DepsDir f)"
    and u2: "unrelated (GroupMetadata f) (V3LayersDir f)"
    and u3: "unrelated (GroupMetadata f) (V3BuildpacksDir f)"
    and u4: "unrelated (V2DepsDir f) (V3LayersDir f)"
    and u5: "unrelated (V2DepsDir f) (V3BuildpacksDir f)"
    and ok: "IncludePreviousV2Buildpacks f w = Inr w'"
  shows "walk (fs w') (GroupMetadata f) =
     Inr (File (GroupTOML (g\<lparr>Buildpacks := map legacy_ref [0..<N] @ Buildpacks g\<rparr>)))"
proof -
  from ok IncludePrevious_unfold [OF idx, of w] obtain w0 where
    r: "os_RemoveAll (V2DepsDir f @ [DepsIndex f]) w = Inr w0"
    and v: "visit_all f (rev [0..<N]) w0 = Inr w'"
    by (auto simp: filepath_Join_def split: sum.splits)
  have "unrelated (GroupMetadata f) (V2DepsDir f @ [DepsIndex f])"
    using u1 by (rule unrelated_ext)
  from os_RemoveAll_frame [OF r this] grp
  have g0: "walk (fs w0) (GroupMetadata f) = Inr (File (GroupTOML g))" by simp
  have p0: "\<forall>i < N. \<exists>n. walk (fs w0) (V2DepsDir f @ [strconv_Itoa (int i)]) = Inr n"
  proof (intro allI impI)
    fix i assume i: "i < N"
    then have "DepsIndex f \<noteq> strconv_Itoa (int i)" using DepsIndex_other [OF idx, of i] by simp
    then have "unrelated (V2DepsDir f @ [strconv_Itoa (int i)]) (V2DepsDir f @ [DepsIndex f])"
      by (intro unrelated_sibling) auto
    from os_RemoveAll_frame [OF r this] present i
    show "\<exists>n. walk (fs w0) (V2DepsDir f @ [strconv_Itoa (int i)]) = Inr n" by simp
  qed
  from visit_all_group [OF u1 u2 u3 u4 u5 v p0 g0] show ?thesis .
qed

theorem IncludePreviousV2Buildpacks_group_order_witness:
  "strconv_Atoi (DepsIndex example_finalizer) = Inr (int 2) \<and>
   walk (fs include_world) (V2DepsDir example_finalizer @ [strconv_Itoa 0]) =
     Inr (Dir [(''env'', Dir [(''A'', File (Bytes ''a''))])]) \<and>
   walk (fs include_world) (V2DepsDir example_finalizer @ [strconv_Itoa 1]) =
     Inr (Dir [(''bin'', Dir [])]) \<and>
   walk (fs include_world) (GroupMetadata example_finalizer) =
     Inr (File (GroupTOML (lang_group ''lang-b''))) \<and>
   IncludePreviousV2Buildpacks example_finalizer include_world = Inr included_world \<and>
   walk (fs included_world) (GroupMetadata example_finalizer) =
     Inr (File (GroupTOML \<lparr>Buildpacks = [legacy_ref 0, legacy_ref 1,
        \<lparr>bp_ID = ''lang-b'', bp_Name = [], bp_Version = []\<rparr>]\<rparr>))"
proof -
  let ?F = example_finalizer
  have present: "\<forall>i < 2. \<exists>n. walk (fs include_world) (V2DepsDir ?F @ [strconv_Itoa (int i)]) = Inr n"
  proof (intro allI impI)
    fix i :: nat assume "i < 2"
    then have "i = 0 \<or> i = 1" by auto
    then show "\<exists>n. walk (fs include_world) (V2DepsDir ?F @ [strconv_Itoa (int i)]) = Inr n"
      by (auto simp: include_world_def legacy_deps_def tmp_home_world_def example_finalizer_def
          strconv_Itoa_def digits_small)
  qed
  have grp: "walk (fs include_world) (GroupMetadata ?F) =
      Inr (File (GroupTOML (lang_group ''lang-b'')))"
    by (simp add: include_world_def tmp_home_world_def example_finalizer_def metadata_entries_def)
  have u: "unrelated (GroupMetadata ?F) (V2DepsDir ?F)" "unrelated (GroupMetadata ?F) (V3LayersDir ?F)"
    "unrelated (GroupMetadata ?F) (V3BuildpacksDir ?F)" "unrelated (V2DepsDir ?F) (V3LayersDir ?F)"
    "unrelated (V2DepsDir ?F) (V3BuildpacksDir ?F)"
    by (simp_all add: unrelated_def example_finalizer_def)
  from IncludePreviousV2Buildpacks_group_order [OF Atoi_example present grp u include_example]
  have "walk (fs included_world) (GroupMetadata ?F) =
      Inr (File (GroupTOML ((lang_group ''lang-b'')\<lparr>Buildpacks :=
         map legacy_ref [0..<2] @ Buildpacks (lang_group ''lang-b'')\<rparr>)))" .
  then have "walk (fs included_world) (GroupMetadata ?F) =
     Inr (File (GroupTOML \<lparr>Buildpacks = [legacy_ref 0, legacy_ref 1,
        \<lparr>bp_ID = ''lang-b'', bp_Name = [], bp_Version = []\<rparr>]\<rparr>))"
    by (simp add: lang_group_def numeral_2_eq_2)
  moreover
  have "walk (fs include_world) (V2DepsDir ?F @ [strconv_Itoa 0]) =
      Inr (Dir [(''env'', Dir [(''A'', File (Bytes ''a''))])])"
    "walk (fs include_world) (V2DepsDir ?F @ [strconv_Itoa 1]) = Inr (Dir [(''bin'', Dir [])])"
    by (simp_all add: include_world_def legacy_deps_def tmp_home_world_def example_finalizer_def
        strconv_Itoa_def digits_small)
  ultimately show ?thesis using Atoi_example grp include_example by (intro conjI)
qed

text \<open>
  C4, as amended. For a deps index that parses to \<open>k\<close>, \<open>IncludePreviousV2Buildpacks\<close> removes
  the directory of the current index and then visits the legacy indices \<open>k-1\<close>, ..., \<open>0\<close> in
  descending order, performing the injection steps at each index that has output and
  skipping the others; the current index \<open>k\<close> itself is not visited.
\<close>

theorem IncludePreviousV2Buildpacks_iteration:
  assumes "strconv_Atoi (DepsIndex f) = Inr (int k)"
  shows "IncludePreviousV2Buildpacks f w =
     (case os_RemoveAll (filepath_Join (V2DepsDir f) [DepsIndex f]) w of
        Inl err \<Rightarrow> Inl err
      | Inr w' \<Rightarrow> visit_all f (rev [0..<k]) w')"
  using assms by (rule IncludePrevious_unfold)

theorem IncludePreviousV2Buildpacks_iteration_witness:
  "strconv_Atoi (DepsIndex example_finalizer) = Inr (int 2) \<and>
   IncludePreviousV2Buildpacks example_finalizer include_world =
     visit_all example_finalizer [Suc 0, 0]
       (tmp_home_world [(''deps'', Dir [(''0'', Dir [(''env'', Dir [(''A'', File (Bytes ''a''))])]),
                                        (''1'', Dir [(''bin'', Dir [])])])]
          [(''metadata'', Dir metadata_entries)])"
  using IncludePreviousV2Buildpacks_iteration [OF Atoi_example, of include_world]
  by (simp add: Atoi_example remove_example rev_upt_2)

text \<open>
  C4, as stated, fails: with the current index 2 and output on disk at the indices 0, 1
  and 2, the run succeeds, the output of index 2 is removed, and nothing is injected for
  it: no layer, no descriptor and no group reference \<open>buildpack.2\<close>.
\<close>

theorem IncludePreviousV2Buildpacks_current_index_counterexample:
  "strconv_Atoi (DepsIndex example_finalizer) = Inr 2 \<and>
   walk (fs include_world) (V2DepsDir example_finalizer @ [strconv_Itoa 2]) =
     Inr (Dir [(''own'', File (Bytes ''o''))]) \<and>
   IncludePreviousV2Buildpacks example_finalizer include_world = Inr included_world \<and>
   walk (fs included_world) (V2DepsDir example_finalizer @ [strconv_Itoa 2]) = Inl ENOENT \<and>
   walk (fs included_world)
     (V3LayersDir example_finalizer @ [''buildpack.'' @ strconv_Itoa 2, ''layer'']) = Inl ENOENT \<and>
   walk (fs included_world)
     (V3BuildpacksDir example_finalizer @ [''buildpack.'' @ strconv_Itoa 2]) = Inl ENOENT \<and>
   walk (fs included_world) (GroupMetadata example_finalizer) =
     Inr (File (GroupTOML \<lparr>Buildpacks = [legacy_ref 0, legacy_ref 1,
        \<lparr>bp_ID = ''lang-b'', bp_Name = [], bp_Version = []\<rparr>]\<rparr>))"
proof -
  have a: "walk (fs include_world) (V2DepsDir example_finalizer @ [strconv_Itoa 2]) =
      Inr (Dir [(''own'', File (Bytes ''o''))])"
    by (simp add: include_world_def legacy_deps_def tmp_home_world_def example_finalizer_def
        strconv_Itoa_def digits_small)
  have b: "walk (fs included_world) (V2DepsDir example_finalizer @ [strconv_Itoa 2]) = Inl ENOENT"
    "walk (fs included_world)
       (V3LayersDir example_finalizer @ [''buildpack.'' @ strconv_Itoa 2, ''layer'']) = Inl ENOENT"
    "walk (fs included_world)
       (V3BuildpacksDir example_finalizer @ [''buildpack.'' @ strconv_Itoa 2]) = Inl ENOENT"
    "walk (fs included_world) (GroupMetadata example_finalizer) =
       Inr (File (GroupTOML \<lparr>Buildpacks = [legacy_ref 0, legacy_ref 1,
          \<lparr>bp_ID = ''lang-b'', bp_Name = [], bp_Version = []\<rparr>]\<rparr>))"
    by (simp_all add: included_world_def tmp_home_world_def example_finalizer_def
        strconv_Itoa_def digits_small legacy_ref_def injected_layer_def fake_cnb_def)
  from Atoi_example have "strconv_Atoi (DepsIndex example_finalizer) = Inr 2" by simp
  with a b include_example show ?thesis by (intro conjI)
qed

text \<open>
  C6. Let the layers directory, the legacy cache directory, the legacy deps directory and
  the directory \<open>.cloudfoundry\<close> of the legacy app directory lie apart, let no entry of the
  layers directory have an empty name, and let a directory of the layers directory other
  than \<open>config\<close> hold no sidecar without a base name. After a
  successful \<open>MoveV3Layers\<close>, whatever other entries of the layers directory were migrated
  before and after it: for every layer of that directory flagged for the cache, the durable
  cache holds under the buildpack's name and the layer's name the layer's directory tree
  and beside it the sidecar, whatever was there before; for every layer directory that is
  not flagged (its sidecar says \<open>cache = false\<close>, or it has none) the cache entry of that
  key, directory and sidecar, is what it was before, so none is created; the legacy deps
  directory holds under the buildpack's name the whole directory; and the directory is
  still in the layers directory.
\<close>

theorem MoveV3Layers_cache_selectivity:
  assumes top: "walk (fs w) (V3LayersDir f) = Inr (Dir tops)"
    and bp: "map_of tops bp = Some (Dir es)" "bp \<noteq> ''config''"
    and names: "map_of tops [] = None" "map_of es ''.toml'' = None"
    and nm: "[] \<notin> set (V3LayersDir f)" "[] \<notin> set (V2CacheDir f)" "[] \<notin> set (V2DepsDir f)"
    and ap: "apart [V3LayersDir f, V2CacheDir f, V2DepsDir f, V2AppDir f @ [''.cloudfoundry'']]"
    and ok: "MoveV3Layers f w = Inr w'"
  shows
    "(\<forall>l. cache_flagged es l \<longrightarrow>
        (\<exists>ds c. map_of es l = Some (Dir ds) \<and> map_of es (l @ ''.toml'') = Some (File c) \<and>
           walk (fs w') (V2CacheDir f @ [''cnb'', bp, l]) = Inr (Dir ds) \<and>
           walk (fs w') (V2CacheDir f @ [''cnb'', bp, l @ ''.toml'']) = Inr (File c))) \<and>
     (\<forall>l ds. map_of es l = Some (Dir ds) \<and> \<not> cache_flagged es l \<longrightarrow>
        walk (fs w') (V2CacheDir f @ [''cnb'', bp, l]) =
          walk (fs w) (V2CacheDir f @ [''cnb'', bp, l]) \<and>
        walk (fs w') (V2CacheDir f @ [''cnb'', bp, l @ ''.toml'']) =
          walk (fs w) (V2CacheDir f @ [''cnb'', bp, l @ ''.toml''])) \<and>
     walk (fs w') (V2DepsDir f @ [bp]) = Inr (Dir es) \<and>
     walk (fs w') (V3LayersDir f @ [bp]) = Inr (Dir es)"
proof -
  let ?L = "V3LayersDir f" and ?C = "V2CacheDir f" and ?D = "V2DepsDir f"
  let ?A = "V2AppDir f @ [''.cloudfoundry'']"
  let ?names = "sort (remdups (map fst tops))"
  from ap have uLC: "unrelated ?L ?C" and uLD: "unrelated ?L ?D" and uLA: "unrelated ?L ?A"
    and uCD: "unrelated ?C ?D" and uCA: "unrelated ?C ?A" and uDA: "unrelated ?D ?A"
    by simp_all
  note uCL = unrelated_sym [OF uLC] and uDL = unrelated_sym [OF uLD]
    and uDC = unrelated_sym [OF uCD]
  from bp(1) names(1) have bpn: "bp \<noteq> []" by auto
  from bp(1) have "bp \<in> set ?names" by (rule map_of_names)
  from split_list [OF this] obtain pre post where sp: "?names = pre @ bp # post" by blast
  have "distinct ?names" by simp
  with sp have npre: "bp \<notin> set pre" and npost: "bp \<notin> set post" by auto
  from names(1) have "[] \<notin> set ?names" by (simp add: map_of_eq_None_iff)
  with sp have epre: "[] \<notin> set pre" and epost: "[] \<notin> set post" by auto
  from ok have "layers_loop f (map (\<lambda>n. ?L @ [n]) (pre @ bp # post)) w = Inr w'"
    by (simp add: MoveV3Layers_def glob_star [OF top] sp)
  then obtain wa wb where
    s1: "layers_loop f (map (\<lambda>n. ?L @ [n]) pre) w = Inr wa"
    and s2: "moveV3Layer f (?L @ [bp]) wa = Inr wb"
    and s3: "layers_loop f (map (\<lambda>n. ?L @ [n]) post) wb = Inr w'"
    using bp(2) bpn
    by (auto simp: layers_loop_append Let_def filepath_Base_name split: sum.splits)
  have kept: "walk (fs v') q = walk (fs v) q"
    if run: "layers_loop f (map (\<lambda>n. ?L @ [n]) ns) v = Inr v'"
      and e: "[] \<notin> set ns" and n: "bp \<notin> set ns"
      and q: "q = ?L @ bp # x \<or> q = ?C @ ''cnb'' # bp # x \<or> q = ?D @ bp # x"
    for ns v v' q x
  proof -
    have a: "unrelated q (?C @ [''cnb'', k]) \<and> unrelated q (?D @ [k])" if k: "k \<noteq> bp" for k
    proof -
      from k have kb: "bp \<noteq> k" by simp
      from q consider "q = ?L @ bp # x" | "q = ?C @ ''cnb'' # bp # x" | "q = ?D @ bp # x" by blast
      then show ?thesis
      proof cases
        case 1
        with unrelated_append [OF uLC, of "bp # x" "[''cnb'', k]"]
          unrelated_append [OF uLD, of "bp # x" "[k]"] show ?thesis by simp
      next
        case 2
        with unrelated_below [OF kb, of "?C @ [''cnb'']" x "[]"]
          unrelated_append [OF uCD, of "''cnb'' # bp # x" "[k]"] show ?thesis by simp
      next
        case 3
        with unrelated_append [OF uDC, of "bp # x" "[''cnb'', k]"]
          unrelated_below [OF kb, of ?D x "[]"] show ?thesis by simp
      qed
    qed
    have b: "unrelated q (?L @ [''config'']) \<and> unrelated q (?D @ [''config'']) \<and> unrelated q ?A"
    proof -
      from q consider "q = ?L @ bp # x" | "q = ?C @ ''cnb'' # bp # x" | "q = ?D @ bp # x" by blast
      then show ?thesis
      proof cases
        case 1
        with unrelated_below [OF bp(2), of ?L x "[]"]
          unrelated_append [OF uLD, of "bp # x" "[''config'']"]
          unrelated_append [OF uLA, of "bp # x" "[]"] show ?thesis by simp
      next
        case 2
        with unrelated_append [OF uCL, of "''cnb'' # bp # x" "[''config'']"]
          unrelated_append [OF uCD, of "''cnb'' # bp # x" "[''config'']"]
          unrelated_append [OF uCA, of "''cnb'' # bp # x" "[]"] show ?thesis by simp
      next
        case 3
        with unrelated_append [OF uDL, of "bp # x" "[''config'']"]
          unrelated_below [OF bp(2), of ?D x "[]"]
          unrelated_append [OF uDA, of "bp # x" "[]"] show ?thesis by simp
      qed
    qed
    have r3: "\<forall>k \<in> set ns. k \<noteq> ''config'' \<longrightarrow>
        unrelated q (?C @ [''cnb'', k]) \<and> unrelated q (?D @ [k])"
    proof (intro ballI impI)
      fix k assume "k \<in> set ns"
      with n have "k \<noteq> bp" by auto
      then show "unrelated q (?C @ [''cnb'', k]) \<and> unrelated q (?D @ [k])" by (rule a)
    qed
    from b have r4: "''config'' \<in> set ns \<longrightarrow>
        unrelated q (?L @ [''config'']) \<and> unrelated q (?D @ [''config'']) \<and> unrelated q ?A"
      by simp
    from layers_loop_frame [OF nm(2,3) run e r3 r4] show ?thesis .
  qed
  have before: "walk (fs wa) q = walk (fs w) q"
    if "q = ?L @ bp # x \<or> q = ?C @ ''cnb'' # bp # x \<or> q = ?D @ bp # x" for q x
    using kept [OF s1 epre npre that] .
  have after: "walk (fs w') q = walk (fs wb) q"
    if "q = ?L @ bp # x \<or> q = ?C @ ''cnb'' # bp # x \<or> q = ?D @ bp # x" for q x
    using kept [OF s3 epost npost that] .
  from top bp(1) have "walk (fs w) (?L @ [bp]) = Inr (Dir es)" by (simp add: walk_child)
  with before [of "?L @ [bp]" "[]"] have dir: "walk (fs wa) (?L @ [bp]) = Inr (Dir es)" by simp
  have p: "?L @ [bp] \<noteq> []" "[] \<notin> set (?L @ [bp])" using nm(1) bpn by auto
  have u: "unrelated (?L @ [bp]) ?C" "unrelated (?L @ [bp]) ?D"
    using unrelated_append [OF uLC, of "[bp]" "[]"] unrelated_append [OF uLD, of "[bp]" "[]"]
    by simp_all
  note E = moveV3Layer_effect [OF dir p nm(2,3) names(2) u uCD s2]
  have c1: "\<exists>ds c. map_of es l = Some (Dir ds) \<and> map_of es (l @ ''.toml'') = Some (File c) \<and>
           walk (fs w') (?C @ [''cnb'', bp, l]) = Inr (Dir ds) \<and>
           walk (fs w') (?C @ [''cnb'', bp, l @ ''.toml'']) = Inr (File c)"
    if fl: "cache_flagged es l" for l
  proof -
    from E(1) fl obtain ds c where
      m: "map_of es l = Some (Dir ds)" "map_of es (l @ ''.toml'') = Some (File c)"
      and x: "walk (fs wb) (?C @ [''cnb'', bp, l]) = Inr (Dir ds)"
        "walk (fs wb) (?C @ [''cnb'', bp, l @ ''.toml'']) = Inr (File c)"
      by auto
    from after [of "?C @ [''cnb'', bp, l]" "[l]"] x(1)
    have y1: "walk (fs w') (?C @ [''cnb'', bp, l]) = Inr (Dir ds)" by simp
    from after [of "?C @ [''cnb'', bp, l @ ''.toml'']" "[l @ ''.toml'']"] x(2)
    have y2: "walk (fs w') (?C @ [''cnb'', bp, l @ ''.toml'']) = Inr (File c)" by simp
    from m y1 y2 show ?thesis by blast
  qed
  have c2: "walk (fs w') (?C @ [''cnb'', bp, l]) = walk (fs w) (?C @ [''cnb'', bp, l]) \<and>
      walk (fs w') (?C @ [''cnb'', bp, l @ ''.toml'']) =
        walk (fs w) (?C @ [''cnb'', bp, l @ ''.toml''])"
    if d: "map_of es l = Some (Dir ds)" and nf: "\<not> cache_flagged es l" for l ds
  proof -
    from E(2) d nf have
      x: "walk (fs wb) (?C @ [''cnb'', bp, l]) = walk (fs wa) (?C @ [''cnb'', bp, l])"
        "walk (fs wb) (?C @ [''cnb'', bp, l @ ''.toml'']) =
           walk (fs wa) (?C @ [''cnb'', bp, l @ ''.toml''])"
      by auto
    from after [of "?C @ [''cnb'', bp, l]" "[l]"] before [of "?C @ [''cnb'', bp, l]" "[l]"] x(1)
    have y1: "walk (fs w') (?C @ [''cnb'', bp, l]) = walk (fs w) (?C @ [''cnb'', bp, l])" by simp
    from after [of "?C @ [''cnb'', bp, l @ ''.toml'']" "[l @ ''.toml'']"]
      before [of "?C @ [''cnb'', bp, l @ ''.toml'']" "[l @ ''.toml'']"] x(2)
    have "walk (fs w') (?C @ [''cnb'', bp, l @ ''.toml'']) =
        walk (fs w) (?C @ [''cnb'', bp, l @ ''.toml''])" by simp
    with y1 show ?thesis by simp
  qed
  from after [of "?D @ [bp]" "[]"] E(3)
  have c3: "walk (fs w') (?D @ [bp]) = Inr (Dir es)" by simp
  from after [of "?L @ [bp]" "[]"] E(4)
  have c4: "walk (fs w') (?L @ [bp]) = Inr (Dir es)" by simp
  from c1 c2 c3 c4 show ?thesis by blast
qed

theorem MoveV3Layers_cache_selectivity_witness:
  "MoveV3Layers example_finalizer layers_world = Inr persisted_world \<and>
   walk (fs layers_world) [''home'', ''vcap'', ''deps'', ''org.lang''] = Inr (Dir produced_layers) \<and>
   cache_flagged produced_layers ''x'' = True \<and>
   cache_flagged produced_layers ''y'' = False \<and>
   cache_flagged produced_layers ''z'' = False \<and>
   walk (fs layers_world) [''tmp'', ''cache'', ''cnb'', ''org.lang'', ''x''] =
     Inr (Dir [(''stale'', File (Bytes ''s''))]) \<and>
   walk (fs persisted_world) [''tmp'', ''cache'', ''cnb'', ''org.lang'', ''x''] =
     Inr (Dir [(''lib'', File (Bytes ''l''))]) \<and>
   walk (fs persisted_world) [''tmp'', ''cache'', ''cnb'', ''org.lang'', ''x.toml''] =
     Inr (File (LayerTOML \<lparr>Build = False, Launch = True, Cache = True\<rparr>)) \<and>
   walk (fs persisted_world) [''tmp'', ''cache'', ''cnb'', ''org.lang'', ''y''] = Inl ENOENT \<and>
   walk (fs persisted_world) [''tmp'', ''cache'', ''cnb'', ''org.lang'', ''y.toml''] = Inl ENOENT \<and>
   walk (fs persisted_world) [''tmp'', ''cache'', ''cnb'', ''org.lang'', ''z''] = Inl ENOENT \<and>
   walk (fs persisted_world) [''tmp'', ''deps'', ''org.lang''] = Inr (Dir produced_layers) \<and>
   walk (fs persisted_world) [''home'', ''vcap'', ''deps'', ''org.lang''] = Inr (Dir produced_layers)"
proof -
  let ?F = example_finalizer
  let ?tops = "[(''org.tool'', Dir tool_layers), (''org.lang'', Dir produced_layers),
                (''config'', Dir [(''metadata.toml'', File (Bytes ''meta''))])]"
  let ?K = "V2CacheDir ?F @ [''cnb'', ''org.lang'']"
  have top: "walk (fs layers_world) (V3LayersDir ?F) = Inr (Dir ?tops)"
    by (simp add: layers_world_def tmp_home_world_def example_finalizer_def)
  have bp: "map_of ?tops ''org.lang'' = Some (Dir produced_layers)" "''org.lang'' \<noteq> ''config''"
    by simp_all
  have names: "map_of ?tops [] = None" "map_of produced_layers ''.toml'' = None"
    by (simp_all add: produced_layers_def)
  have nm: "[] \<notin> set (V3LayersDir ?F)" "[] \<notin> set (V2CacheDir ?F)" "[] \<notin> set (V2DepsDir ?F)"
    by (simp_all add: example_finalizer_def)
  have ap: "apart [V3LayersDir ?F, V2CacheDir ?F, V2DepsDir ?F, V2AppDir ?F @ [''.cloudfoundry'']]"
    by (simp add: unrelated_def example_finalizer_def)
  note T = MoveV3Layers_cache_selectivity [OF top bp names nm ap MoveV3Layers_example]
  have fx: "cache_flagged produced_layers ''x''"
    and fy: "\<not> cache_flagged produced_layers ''y''"
    and fz: "\<not> cache_flagged produced_layers ''z''"
    by (simp_all add: cache_flagged_def produced_layers_def)
  have m: "map_of produced_layers ''x'' = Some (Dir [(''lib'', File (Bytes ''l''))])"
    "map_of produced_layers (''x'' @ ''.toml'') =
       Some (File (LayerTOML \<lparr>Build = False, Launch = True, Cache = True\<rparr>))"
    "map_of produced_layers ''y'' = Some (Dir [(''bin'', Dir [])])"
    "map_of produced_layers ''z'' = Some (Dir [])"
    by (simp_all add: produced_layers_def)
  have b: "walk (fs layers_world) [''home'', ''vcap'', ''deps'', ''org.lang''] = Inr (Dir produced_layers)"
    "walk (fs layers_world) [''tmp'', ''cache'', ''cnb'', ''org.lang'', ''x''] =
       Inr (Dir [(''stale'', File (Bytes ''s''))])"
    "walk (fs layers_world) (?K @ [''y'']) = Inl ENOENT"
    "walk (fs layers_world) (?K @ [''y'' @ ''.toml'']) = Inl ENOENT"
    "walk (fs layers_world) (?K @ [''z'']) = Inl ENOENT"
    by (simp_all add: layers_world_def tmp_home_world_def example_finalizer_def)
  from T fx obtain ds c where
    "map_of produced_layers ''x'' = Some (Dir ds)"
    "map_of produced_layers (''x'' @ ''.toml'') = Some (File c)"
    "walk (fs persisted_world) (?K @ [''x'']) = Inr (Dir ds)"
    "walk (fs persisted_world) (?K @ [''x'' @ ''.toml'']) = Inr (File c)"
    by auto
  with m(1,2) have x: "walk (fs persisted_world) (?K @ [''x'']) = Inr (Dir [(''lib'', File (Bytes ''l''))])"
    "walk (fs persisted_world) (?K @ [''x'' @ ''.toml'']) =
       Inr (File (LayerTOML \<lparr>Build = False, Launch = True, Cache = True\<rparr>))"
    by simp_all
  from T fy m(3) have "walk (fs persisted_world) (?K @ [''y'']) = walk (fs layers_world) (?K @ [''y''])"
    "walk (fs persisted_world) (?K @ [''y'' @ ''.toml'']) =
       walk (fs layers_world) (?K @ [''y'' @ ''.toml''])"
    by auto
  with b(3,4) have y: "walk (fs persisted_world) (?K @ [''y'']) = Inl ENOENT"
    "walk (fs persisted_world) (?K @ [''y'' @ ''.toml'']) = Inl ENOENT" by simp_all
  from T fz m(4) have "walk (fs persisted_world) (?K @ [''z'']) = walk (fs layers_world) (?K @ [''z''])"
    by auto
  with b(5) have z: "walk (fs persisted_world) (?K @ [''z'']) = Inl ENOENT" by simp
  from T have d: "walk (fs persisted_world) (V2DepsDir ?F @ [''org.lang'']) = Inr (Dir produced_layers)"
    "walk (fs persisted_world) (V3LayersDir ?F @ [''org.lang'']) = Inr (Dir produced_layers)"
    by auto
  from x y z d have r: "walk (fs persisted_world) [''tmp'', ''cache'', ''cnb'', ''org.lang'', ''x''] =
       Inr (Dir [(''lib'', File (Bytes ''l''))])"
    "walk (fs persisted_world) [''tmp'', ''cache'', ''cnb'', ''org.lang'', ''x.toml''] =
       Inr (File (LayerTOML \<lparr>Build = False, Launch = True, Cache = True\<rparr>))"
    "walk (fs persisted_world) [''tmp'', ''cache'', ''cnb'', ''org.lang'', ''y''] = Inl ENOENT"
    "walk (fs persisted_world) [''tmp'', ''cache'', ''cnb'', ''org.lang'', ''y.toml''] = Inl ENOENT"
    "walk (fs persisted_world) [''tmp'', ''cache'', ''cnb'', ''org.lang'', ''z''] = Inl ENOENT"
    "walk (fs persisted_world) [''tmp'', ''deps'', ''org.lang''] = Inr (Dir produced_layers)"
    "walk (fs persisted_world) [''home'', ''vcap'', ''deps'', ''org.lang''] = Inr (Dir produced_layers)"
    by (simp_all add: example_finalizer_def)
  from fx fy fz have "cache_flagged produced_layers ''x'' = True"
    "cache_flagged produced_layers ''y'' = False" "cache_flagged produced_layers ''z'' = False"
    by simp_all
  with MoveV3Layers_example b(1,2) r show ?thesis by (intro conjI)
qed

end
